theory Spec2Isabelle
  imports Main
begin

section \<open>The login command of fly: acquiring a token\<close>

text \<open>
  The development follows \<^verbatim>\<open>commands/login.go\<close> from the point where \<^verbatim>\<open>Execute\<close>
  has resolved its target (line 83) to its return. The command either exchanges a
  username and a password for a token, or starts two goroutines, the callback listener
  and the reader of manual input, and takes the first message that arrives on one of
  three unbuffered channels.

  A Go \<^verbatim>\<open>string\<close> is a \<^typ>\<open>string\<close> here. Where the standard library reads runes
  (\<^verbatim>\<open>fmt.Scanf\<close>), one \<^typ>\<open>char\<close> stands for one rune, so the input of the scanner is
  the sequence of runes below \<^verbatim>\<open>U+0100\<close> that \<^verbatim>\<open>ReadRune\<close> delivers.
\<close>

subsection \<open>Errors\<close>

text \<open>
  A value of Go's \<^verbatim>\<open>error\<close>: the errors of the scanner that the command can meet,
  and every other error by its message.
\<close>

datatype error =
    Msg string
  | EOF
  | UnexpectedNewline
  | NewlineInInput
  | ExpectedSpace

subsection \<open>\<^verbatim>\<open>strings.SplitN\<close>\<close>

text \<open>
  \<^verbatim>\<open>strings.SplitN(s, sep, n)\<close> for a separator of one byte: at most \<^verbatim>\<open>n\<close> pieces, the
  last one holding the unsplit remainder; \<^verbatim>\<open>n = 0\<close> gives no piece at all.
\<close>

fun SplitN :: "string \<Rightarrow> char \<Rightarrow> nat \<Rightarrow> string list" where
  "SplitN s sep 0 = []"
| "SplitN s sep (Suc 0) = [s]"
| "SplitN s sep (Suc (Suc n)) =
     (if sep \<in> set s
      then takeWhile (\<lambda>c. c \<noteq> sep) s # SplitN (tl (dropWhile (\<lambda>c. c \<noteq> sep) s)) sep (Suc n)
      else [s])"

subsection \<open>\<^verbatim>\<open>fmt.Scanf("%s %s", &tokenType, &tokenValue)\<close>\<close>

text \<open>
  The table of \<^verbatim>\<open>fmt\<close>'s \<^verbatim>\<open>isSpace\<close>, as ranges of code points, and its search.
\<close>

definition space :: "(nat \<times> nat) list" where
  "space =
     [(0x0009, 0x000d), (0x0020, 0x0020), (0x0085, 0x0085), (0x00a0, 0x00a0),
      (0x1680, 0x1680), (0x2000, 0x200a), (0x2028, 0x2029), (0x202f, 0x202f),
      (0x205f, 0x205f), (0x3000, 0x3000)]"

fun in_ranges :: "nat \<Rightarrow> (nat \<times> nat) list \<Rightarrow> bool" where
  "in_ranges rx [] = False"
| "in_ranges rx ((lo, hi) # rngs) =
     (if rx < lo then False else if rx \<le> hi then True else in_ranges rx rngs)"

definition isSpace :: "char \<Rightarrow> bool" where
  "isSpace r = in_ranges (of_char r) space"

definition LF :: char where
  "LF = CHR ''\<newline>''"

definition CR :: char where
  "CR = CHR 0x0D"

text \<open>
  \<^verbatim>\<open>SkipSpace\<close> in the mode of \<^verbatim>\<open>Scanf\<close>, where a newline is not a space: it reads
  spaces up to the first rune that is none, and a newline on the way is an error, raised
  after the newline has been read. The result is the error, if any, and the input left.
\<close>

fun SkipSpace :: "string \<Rightarrow> error option \<times> string" where
  "SkipSpace [] = (None, [])"
| "SkipSpace (r # rs) =
     (if r = CR \<and> (case rs of [] \<Rightarrow> False | r' # _ \<Rightarrow> r' = LF) then SkipSpace rs
      else if r = LF then (Some UnexpectedNewline, rs)
      else if \<not> isSpace r then (None, r # rs)
      else SkipSpace rs)"

text \<open>
  \<^verbatim>\<open>token(true, notSpace)\<close>, after the spaces have been skipped: the runes up to the
  next space or the end of the input, and the input from that space on.
\<close>

definition scan_token :: "string \<Rightarrow> string \<times> string" where
  "scan_token inp = (takeWhile (\<lambda>r. \<not> isSpace r) inp, dropWhile (\<lambda>r. \<not> isSpace r) inp)"

text \<open>
  \<^verbatim>\<open>advance\<close> on the single space of the format: the input must go on with a space
  that is no newline (or end), and all such spaces are read.
\<close>

definition advance :: "string \<Rightarrow> error option \<times> string" where
  "advance inp =
     (case inp of
        [] \<Rightarrow> (None, [])
      | inputc # rs \<Rightarrow>
          if \<not> isSpace inputc then (Some ExpectedSpace, rs)
          else if inputc = LF then (Some NewlineInInput, rs)
          else (None, dropWhile (\<lambda>r. isSpace r \<and> r \<noteq> LF) rs))"

text \<open>
  What one call returns: the number of operands stored, the error, the operands, and
  the input that the next call will see. Standard input is no \<^verbatim>\<open>io.RuneScanner\<close>, so
  the rune that ended the second token, read ahead and put back into a buffer of this
  call only, is gone when the call returns.
\<close>

record scanned =
  count :: nat
  err :: "error option"
  tokenType :: string
  tokenValue :: string
  unread :: string

definition Scanf :: "string \<Rightarrow> scanned" where
  "Scanf inp =
     (case SkipSpace inp of
        (Some e, r1) \<Rightarrow>
          \<lparr>count = 0, err = Some e, tokenType = [], tokenValue = [], unread = r1\<rparr>
      | (None, r1) \<Rightarrow>
          if r1 = []
          then \<lparr>count = 0, err = Some EOF, tokenType = [], tokenValue = [], unread = []\<rparr>
          else
            (case scan_token r1 of (t1, r2) \<Rightarrow>
              (case advance r2 of
                 (Some e, r3) \<Rightarrow>
                   \<lparr>count = 1, err = Some e, tokenType = t1, tokenValue = [], unread = r3\<rparr>
               | (None, r3) \<Rightarrow>
                   (case SkipSpace r3 of
                      (Some e, r4) \<Rightarrow>
                        \<lparr>count = 1, err = Some e, tokenType = t1, tokenValue = [],
                         unread = r4\<rparr>
                    | (None, r4) \<Rightarrow>
                        if r4 = []
                        then \<lparr>count = 1, err = Some EOF, tokenType = t1, tokenValue = [],
                              unread = []\<rparr>
                        else
                          (case scan_token r4 of (t2, r5) \<Rightarrow>
                            \<lparr>count = 2, err = None, tokenType = t1, tokenValue = t2,
                             unread = tl r5\<rparr>)))))"

subsection \<open>The data of the command\<close>

text \<open>The flags of the command that the code reads.\<close>

record LoginCommand =
  ATCURL :: string
  Insecure :: bool
  Username :: string
  Password :: string
  TeamName :: string
  CACert :: string

text \<open>What \<^verbatim>\<open>client.PasswordGrant\<close> returns, and what \<^verbatim>\<open>rc.SaveTarget\<close> is given.\<close>

record Token =
  TokenType :: string
  AccessToken :: string

record TargetToken =
  Type :: string
  Value :: string

record saved_target =
  target_name :: string
  target_url :: string
  target_insecure :: bool
  target_team :: string
  target_token :: TargetToken
  target_caCert :: string

text \<open>
  The calls that leave the repository, each by its result: the resolved target and its
  client, the password grant of the remote service, the bind of the listener
  (\<^verbatim>\<open>net.Listen\<close>, then \<^verbatim>\<open>net.SplitHostPort\<close> on the address bound, which gives the port
  as text), \<^verbatim>\<open>url.Parse\<close> followed by \<^verbatim>\<open>String\<close>, the \<^verbatim>\<open>Location\<close> header that
  \<^verbatim>\<open>http.Redirect\<close> writes on a request with a given URL path for a given URL (the URL as
  it is when it has a scheme or a host, else a path made from it and the path of the
  request), and the store of targets.
\<close>

record world =
  Fly_Target :: string
  client_URL :: string
  target_CACert :: string
  client_PasswordGrant :: "string \<Rightarrow> string \<Rightarrow> error + Token"
  net_Listen :: "error option"
  net_SplitHostPort :: "error + string"
  url_Parse :: "string \<Rightarrow> error + string"
  http_Redirect :: "string \<Rightarrow> string \<Rightarrow> string"
  rc_SaveTarget :: "saved_target \<Rightarrow> error option"

text \<open>The response that \<^verbatim>\<open>http.Redirect(w, r, url, code)\<close> writes.\<close>

record redirect =
  location :: string
  status :: nat

definition StatusTemporaryRedirect :: nat where
  "StatusTemporaryRedirect = 307"

definition Println :: "string \<Rightarrow> string" where
  "Println s = s @ [LF]"

subsection \<open>Goroutines and their program points\<close>

text \<open>
  The main goroutine, from line 86 of \<^verbatim>\<open>Execute\<close>: before the choice of the grant;
  in \<^verbatim>\<open>authCodeGrant\<close>, blocked on the receive from \<^verbatim>\<open>portChannel\<close> (line 128), holding
  the port (line 130), blocked in the \<^verbatim>\<open>select\<close> (line 142), holding the token string
  (line 151); back in \<^verbatim>\<open>Execute\<close> with a token type and value (line 95); returned; or
  stopped by a panic.
\<close>

datatype main_pc =
    Execute_grant
  | authCodeGrant_port
  | authCodeGrant_url string
  | authCodeGrant_select
  | authCodeGrant_split string
  | Execute_save string string
  | Execute_return "error option"
  | panic string

text \<open>
  \<^verbatim>\<open>listenForTokenCallback\<close>: not started; about to bind (line 174); blocked on the send
  of the port (line 184); serving (line 186); blocked on the send of an error (line 168);
  returned.
\<close>

datatype listener_pc =
    listener_idle
  | listener_bind
  | listener_port string
  | listener_serve
  | listener_error error
  | listener_exit

text \<open>
  The handler of one request, of which the URL path and \<^verbatim>\<open>r.FormValue("token")\<close> are
  kept: blocked on the send of the token value (line 160); about to redirect (line 161);
  done, with its response.
\<close>

datatype handler_pc =
    handler_token string string
  | handler_redirect string
  | handler_done redirect

text \<open>
  \<^verbatim>\<open>waitForTokenInput\<close>: not started; at the head of its loop (line 195); blocked on
  the send of the token string (line 210) or of an error (line 206); returned.
\<close>

datatype reader_pc =
    reader_idle
  | reader_loop
  | reader_token string
  | reader_error error
  | reader_exit

text \<open>
  The state of a run: the goroutines, the standard input still unread, the writes to
  standard output since line 83, and the calls of \<^verbatim>\<open>client.PasswordGrant\<close> and
  \<^verbatim>\<open>rc.SaveTarget\<close> made so far. Standard input is all that will ever arrive on it,
  followed by its end; a reader that waits for more input is a reader whose next step
  has not been taken yet.
\<close>

record state =
  main :: main_pc
  listener :: listener_pc
  handlers :: "handler_pc list"
  reader :: reader_pc
  stdin :: string
  stdout :: "string list"
  grants :: "(string \<times> string) list"
  saves :: "saved_target list"

definition start :: "string \<Rightarrow> state" where
  "start inp =
     \<lparr>main = Execute_grant, listener = listener_idle, handlers = [], reader = reader_idle,
      stdin = inp, stdout = [], grants = [], saves = []\<rparr>"

subsection \<open>The code of each goroutine between two blocking points\<close>

definition passwordGrant :: "world \<Rightarrow> string \<Rightarrow> string \<Rightarrow> error + string \<times> string" where
  "passwordGrant w username password =
     (case client_PasswordGrant w username password of
        Inl e \<Rightarrow> Inl e
      | Inr t \<Rightarrow> Inr (TokenType t, AccessToken t))"

text \<open>Lines 135 to 138: what \<^verbatim>\<open>authCodeGrant\<close> prints once it has the redirect URL.\<close>

definition login_lines :: "string \<Rightarrow> string \<Rightarrow> string list" where
  "login_lines targetUrl redirectUrl =
     [Println ''navigate to the following URL in your browser:'',
      Println [],
      ''    '' @ targetUrl @ ''/sky/login?redirect='' @ redirectUrl @ [LF],
      Println []]"

text \<open>
  Lines 151 to 153: the split of the token string, and the two index reads. The read of
  \<^verbatim>\<open>segments[1]\<close> panics when there is one segment only.
\<close>

definition split_token :: "string \<Rightarrow> main_pc" where
  "split_token tokenStr =
     (let segments = SplitN tokenStr (CHR '' '') 2
      in if length segments < 2 then panic ''index out of range''
         else Execute_save (segments ! 0) (segments ! 1))"

text \<open>\<^verbatim>\<open>saveTarget\<close>, lines 215 to 234.\<close>

definition saveTarget :: "LoginCommand \<Rightarrow> world \<Rightarrow> string \<Rightarrow> string \<Rightarrow> state \<Rightarrow> state" where
  "saveTarget command w tokenType' tokenValue' s =
     (let t = \<lparr>target_name = Fly_Target w, target_url = client_URL w,
                target_insecure = Insecure command, target_team = TeamName command,
                target_token = \<lparr>Type = tokenType', Value = tokenValue'\<rparr>,
                target_caCert = target_CACert w\<rparr>;
          s1 = s\<lparr>saves := saves s @ [t]\<rparr>
      in case rc_SaveTarget w t of
           Some e \<Rightarrow> s1\<lparr>main := Execute_return (Some e)\<rparr>
         | None \<Rightarrow> s1\<lparr>main := Execute_return None,
                       stdout := stdout s1 @ [Println ''target saved'']\<rparr>)"

text \<open>
  The main goroutine runs from where it stands to its next blocking point. Blocked on a
  channel, returned or stopped, it has no step of its own.
\<close>

definition main_step :: "LoginCommand \<Rightarrow> world \<Rightarrow> state \<Rightarrow> state option" where
  "main_step command w s =
     (case main s of
        Execute_grant \<Rightarrow>
          if Username command \<noteq> [] \<and> Password command \<noteq> []
          then
            (let s1 = s\<lparr>grants := grants s @ [(Username command, Password command)]\<rparr>
             in case passwordGrant w (Username command) (Password command) of
                  Inl e \<Rightarrow> Some (s1\<lparr>main := Execute_return (Some e)\<rparr>)
                | Inr (tokenType', tokenValue') \<Rightarrow>
                    Some (s1\<lparr>main := Execute_save tokenType' tokenValue'\<rparr>))
          else Some (s\<lparr>main := authCodeGrant_port, listener := listener_bind\<rparr>)
      | authCodeGrant_port \<Rightarrow> None
      | authCodeGrant_url port \<Rightarrow>
          (case url_Parse w (''http://127.0.0.1:'' @ port @ ''/auth/callback'') of
             Inl e \<Rightarrow> Some (s\<lparr>main := panic ''url.Parse''\<rparr>)
           | Inr redirectUrl \<Rightarrow>
               Some (s\<lparr>main := authCodeGrant_select, reader := reader_loop,
                       stdout := stdout s @ login_lines (client_URL w) redirectUrl\<rparr>))
      | authCodeGrant_select \<Rightarrow> None
      | authCodeGrant_split tokenStr \<Rightarrow> Some (s\<lparr>main := split_token tokenStr\<rparr>)
      | Execute_save tokenType' tokenValue' \<Rightarrow>
          Some (saveTarget command w tokenType' tokenValue'
                  (s\<lparr>stdout := stdout s @ [Println []]\<rparr>))
      | Execute_return r \<Rightarrow> None
      | panic m \<Rightarrow> None)"

text \<open>\<^verbatim>\<open>listenAndServeWithPort\<close> up to its send, lines 173 to 184.\<close>

definition listener_step :: "world \<Rightarrow> state \<Rightarrow> state option" where
  "listener_step w s =
     (case listener s of
        listener_bind \<Rightarrow>
          (case net_Listen w of
             Some e \<Rightarrow> Some (s\<lparr>listener := listener_error e\<rparr>)
           | None \<Rightarrow>
               (case net_SplitHostPort w of
                  Inl e \<Rightarrow> Some (s\<lparr>listener := listener_error e\<rparr>)
                | Inr port \<Rightarrow> Some (s\<lparr>listener := listener_port port\<rparr>)))
      | _ \<Rightarrow> None)"

text \<open>Line 161: the handler, once its send has been received.\<close>

definition handler_step :: "world \<Rightarrow> nat \<Rightarrow> state \<Rightarrow> state option" where
  "handler_step w i s =
     (if i < length (handlers s)
      then (case handlers s ! i of
              handler_redirect path \<Rightarrow>
                Some (s\<lparr>handlers := (handlers s)
                  [i := handler_done
                     \<lparr>location = http_Redirect w path (client_URL w @ ''/public/fly_success''),
                      status = StatusTemporaryRedirect\<rparr>]\<rparr>)
            | _ \<Rightarrow> None)
      else None)"

text \<open>One turn of the loop of \<^verbatim>\<open>waitForTokenInput\<close>, lines 195 to 211.\<close>

definition format_hint :: string where
  "format_hint = Println (''token must be of the format '' @ [CHR 0x27] @ ''TYPE VALUE''
     @ [CHR 0x27] @ '', e.g. '' @ [CHR 0x27] @ ''Bearer ...'' @ [CHR 0x27])"

definition reader_step :: "state \<Rightarrow> state option" where
  "reader_step s =
     (if reader s = reader_loop
      then
        (let sc = Scanf (stdin s);
             s1 = s\<lparr>stdout := stdout s @ [''or enter token manually: ''], stdin := unread sc\<rparr>
         in case err sc of
              Some e \<Rightarrow>
                if count sc \<noteq> 2
                then Some (s1\<lparr>stdout := stdout s1 @ [format_hint]\<rparr>)
                else Some (s1\<lparr>reader := reader_error e\<rparr>)
            | None \<Rightarrow>
                Some (s1\<lparr>reader := reader_token (tokenType sc @ '' '' @ tokenValue sc)\<rparr>))
      else None)"

subsection \<open>Steps of the whole program\<close>

text \<open>
  A step is the move of one goroutine to its next blocking point, an event of the
  server (a request arrives, with its URL path and its \<^verbatim>\<open>token\<close> form value, or
  \<^verbatim>\<open>Serve\<close> fails), or a
  communication on an unbuffered channel, which needs its sender and its receiver at
  once. A schedule is a list of such steps; which of the ready steps comes next is not
  the program's choice, and neither is which ready case a \<^verbatim>\<open>select\<close> takes. A step
  that is not ready gives \<open>None\<close>. The goroutines keep their steps after \<^verbatim>\<open>Execute\<close>
  has returned or the main goroutine has panicked, where the process would end: what
  holds of all these runs holds of the runs of the process.
\<close>

datatype label =
    Main
  | Listener
  | Request string string
  | ServeFails error
  | Handler nat
  | Reader
  | portChannel
  | tokenChannel nat
  | stdinChannel
  | errorChannel_listener
  | errorChannel_reader

fun step :: "LoginCommand \<Rightarrow> world \<Rightarrow> label \<Rightarrow> state \<Rightarrow> state option" where
  "step command w Main s = main_step command w s"
| "step command w Listener s = listener_step w s"
| "step command w (Request path t) s =
     (if listener s = listener_serve
      then Some (s\<lparr>handlers := handlers s @ [handler_token path t]\<rparr>) else None)"
| "step command w (ServeFails e) s =
     (if listener s = listener_serve
      then Some (s\<lparr>listener := listener_error e\<rparr>) else None)"
| "step command w (Handler i) s = handler_step w i s"
| "step command w Reader s = reader_step s"
| "step command w portChannel s =
     (case (main s, listener s) of
        (authCodeGrant_port, listener_port port) \<Rightarrow>
          Some (s\<lparr>main := authCodeGrant_url port, listener := listener_serve\<rparr>)
      | _ \<Rightarrow> None)"
| "step command w (tokenChannel i) s =
     (if main s = authCodeGrant_select \<and> i < length (handlers s)
      then (case handlers s ! i of
              handler_token path t \<Rightarrow>
                Some (s\<lparr>main := authCodeGrant_split t,
                        handlers := (handlers s)[i := handler_redirect path]\<rparr>)
            | _ \<Rightarrow> None)
      else None)"
| "step command w stdinChannel s =
     (case (main s, reader s) of
        (authCodeGrant_select, reader_token t) \<Rightarrow>
          Some (s\<lparr>main := authCodeGrant_split t, reader := reader_exit\<rparr>)
      | _ \<Rightarrow> None)"
| "step command w errorChannel_listener s =
     (case (main s, listener s) of
        (authCodeGrant_select, listener_error e) \<Rightarrow>
          Some (s\<lparr>main := Execute_return (Some e), listener := listener_exit\<rparr>)
      | _ \<Rightarrow> None)"
| "step command w errorChannel_reader s =
     (case (main s, reader s) of
        (authCodeGrant_select, reader_error e) \<Rightarrow>
          Some (s\<lparr>main := Execute_return (Some e), reader := reader_exit\<rparr>)
      | _ \<Rightarrow> None)"

fun exec :: "LoginCommand \<Rightarrow> world \<Rightarrow> label list \<Rightarrow> state \<Rightarrow> state option" where
  "exec command w [] s = Some s"
| "exec command w (l # ls) s =
     (case step command w l s of None \<Rightarrow> None | Some s' \<Rightarrow> exec command w ls s')"

subsection \<open>Runs\<close>

text \<open>
  The main goroutine has its outcome once it is past the \<^verbatim>\<open>select\<close>; the communications
  that a case of the \<^verbatim>\<open>select\<close> receives are told from the other steps.
\<close>

fun decided :: "main_pc \<Rightarrow> bool" where
  "decided Execute_grant = False"
| "decided authCodeGrant_port = False"
| "decided (authCodeGrant_url port) = False"
| "decided authCodeGrant_select = False"
| "decided (authCodeGrant_split tokenStr) = True"
| "decided (Execute_save t v) = True"
| "decided (Execute_return r) = True"
| "decided (panic m) = True"

fun select_case :: "label \<Rightarrow> bool" where
  "select_case (tokenChannel i) = True"
| "select_case stdinChannel = True"
| "select_case errorChannel_listener = True"
| "select_case errorChannel_reader = True"
| "select_case l = False"

text \<open>
  A world and a command for the examples: the listener binds port 43210, every call
  succeeds, the target URL has a scheme and a host, so that \<^verbatim>\<open>http.Redirect\<close> writes it as
  it is, and no username or password is given. In \<open>example_racing\<close> both
  goroutines have been started and the main goroutine waits in its \<^verbatim>\<open>select\<close>.
\<close>

definition example_world :: world where
  "example_world =
     \<lparr>Fly_Target = ''ci'', client_URL = ''https://ci.example.com'', target_CACert = [],
      client_PasswordGrant = (\<lambda>u p. Inr \<lparr>TokenType = ''bearer'', AccessToken = ''xyz''\<rparr>),
      net_Listen = None, net_SplitHostPort = Inr ''43210'', url_Parse = Inr,
      http_Redirect = (\<lambda>path url. url),
      rc_SaveTarget = (\<lambda>t. None)\<rparr>"

definition example_command :: LoginCommand where
  "example_command =
     \<lparr>ATCURL = [], Insecure = False, Username = [], Password = [], TeamName = ''main'',
      CACert = []\<rparr>"

definition example_racing :: "string \<Rightarrow> state" where
  "example_racing inp =
     \<lparr>main = authCodeGrant_select, listener = listener_serve, handlers = [],
      reader = reader_loop, stdin = inp,
      stdout = login_lines ''https://ci.example.com'' ''http://127.0.0.1:43210/auth/callback'',
      grants = [], saves = []\<rparr>"

text \<open>
  Three more states of the example, on the manual input \<^verbatim>\<open>bearer mytoken123\<close> and a
  request with the token \<^verbatim>\<open>Bearer abc123\<close>: both producers wait with their token strings
  while the main goroutine waits in its \<^verbatim>\<open>select\<close>; the \<^verbatim>\<open>select\<close> has received the
  string of the request; the target has been saved.
\<close>

definition example_ready :: state where
  "example_ready =
     \<lparr>main = authCodeGrant_select, listener = listener_serve,
      handlers = [handler_token ''/auth/callback'' ''Bearer abc123''],
      reader = reader_token ''bearer mytoken123'', stdin = [],
      stdout = login_lines ''https://ci.example.com'' ''http://127.0.0.1:43210/auth/callback'' @
        [''or enter token manually: ''],
      grants = [], saves = []\<rparr>"

definition example_both :: state where
  "example_both =
     example_ready\<lparr>main := authCodeGrant_split ''Bearer abc123'',
       handlers := [handler_redirect ''/auth/callback'']\<rparr>"

definition example_saved :: state where
  "example_saved =
     example_both
       \<lparr>main := Execute_return None,
        handlers := [handler_done \<lparr>location = ''https://ci.example.com/public/fly_success'',
          status = 307\<rparr>],
        stdout := stdout example_both @ [Println [], Println ''target saved''],
        saves := [\<lparr>target_name = ''ci'', target_url = ''https://ci.example.com'',
          target_insecure = False, target_team = ''main'',
          target_token = \<lparr>Type = ''Bearer'', Value = ''abc123''\<rparr>, target_caCert = []\<rparr>]\<rparr>"

subsection \<open>Invariants\<close>

text \<open>
  What holds in every state of a run when the bind of the listener fails with \<open>e\<close>:
  the main goroutine is before or at its receive from \<^verbatim>\<open>portChannel\<close>, and nothing has
  been printed or started beyond the listener.
\<close>

definition bind_failed :: "error \<Rightarrow> state \<Rightarrow> bool" where
  "bind_failed e s \<longleftrightarrow>
     (main s = Execute_grant \<and> listener s = listener_idle \<or>
      main s = authCodeGrant_port \<and> (listener s = listener_bind \<or> listener s = listener_error e)) \<and>
     handlers s = [] \<and> reader s = reader_idle \<and> stdout s = []"

text \<open>
  What holds in every state of a run when a username and a password are given: no other
  goroutine exists, and the one call of the password grant decides the main goroutine.
\<close>

definition granted :: "LoginCommand \<Rightarrow> world \<Rightarrow> string \<Rightarrow> state \<Rightarrow> bool" where
  "granted command w inp s \<longleftrightarrow>
     listener s = listener_idle \<and> handlers s = [] \<and> reader s = reader_idle \<and> stdin s = inp \<and>
     (main s = Execute_grant \<and> grants s = [] \<and> saves s = [] \<or>
      grants s = [(Username command, Password command)] \<and>
      (case client_PasswordGrant w (Username command) (Password command) of
         Inl e \<Rightarrow> main s = Execute_return (Some e) \<and> saves s = []
       | Inr t \<Rightarrow>
           main s = Execute_save (TokenType t) (AccessToken t) \<and> saves s = [] \<or>
           (\<exists>r. main s = Execute_return r) \<and>
           map target_token (saves s) = [\<lparr>Type = TokenType t, Value = AccessToken t\<rparr>]))"





text \<open>
  \<^verbatim>\<open>rc.SaveTarget\<close> has been called at most once, and only by an \<^verbatim>\<open>Execute\<close> that has
  returned since. A producer that waits in \<open>s\<close> with a token string still waits with it
  in \<open>s'\<close>.
\<close>

definition saved_once :: "state \<Rightarrow> bool" where
  "saved_once s \<longleftrightarrow>
     length (saves s) \<le> 1 \<and> (saves s = [] \<or> (\<exists>r. main s = Execute_return r))"

definition pending :: "state \<Rightarrow> state \<Rightarrow> bool" where
  "pending s s' \<longleftrightarrow>
     (\<forall>t. reader s = reader_token t \<longrightarrow> reader s' = reader_token t) \<and>
     (\<forall>i p t. i < length (handlers s) \<and> handlers s ! i = handler_token p t \<longrightarrow>
        i < length (handlers s') \<and> handlers s' ! i = handler_token p t)"

text \<open>
  The argument of \<^verbatim>\<open>rc.SaveTarget\<close> for a token type and a token value (lines 216 to 226),
  and the state in which \<^verbatim>\<open>Execute\<close> leaves a run when it saves them (lines 95 to 104).
\<close>

definition saved_as :: "LoginCommand \<Rightarrow> world \<Rightarrow> string \<Rightarrow> string \<Rightarrow> saved_target" where
  "saved_as command w tokenType' tokenValue' =
     \<lparr>target_name = Fly_Target w, target_url = client_URL w,
      target_insecure = Insecure command, target_team = TeamName command,
      target_token = \<lparr>Type = tokenType', Value = tokenValue'\<rparr>,
      target_caCert = target_CACert w\<rparr>"

definition after_save :: "LoginCommand \<Rightarrow> world \<Rightarrow> string \<Rightarrow> string \<Rightarrow> state \<Rightarrow> state" where
  "after_save command w k v s =
     s\<lparr>main := Execute_return (rc_SaveTarget w (saved_as command w k v)),
       saves := saves s @ [saved_as command w k v],
       stdout := stdout s @ Println [] #
         (case rc_SaveTarget w (saved_as command w k v) of
            None \<Rightarrow> [Println ''target saved''] | Some e \<Rightarrow> [])\<rparr>"

text \<open>
  What has become of a token string \<open>t\<close> that the \<^verbatim>\<open>select\<close> received: it is still to be
  split; it has been split, into a token type and a token value still to be saved or
  into a panic; or \<^verbatim>\<open>Execute\<close> has returned what \<^verbatim>\<open>rc.SaveTarget\<close> returned for its token
  type and token value, which are all that has been saved.
\<close>

definition acted :: "LoginCommand \<Rightarrow> world \<Rightarrow> string \<Rightarrow> state \<Rightarrow> bool" where
  "acted command w t s \<longleftrightarrow>
     main s = authCodeGrant_split t \<and> saves s = [] \<or>
     main s = split_token t \<and> saves s = [] \<or>
     (\<exists>k v. split_token t = Execute_save k v \<and>
        main s = Execute_return (rc_SaveTarget w (saved_as command w k v)) \<and>
        saves s = [saved_as command w k v])"

text \<open>
  On the path without username and password: the steps so far hold one communication
  received by the \<^verbatim>\<open>select\<close> when the main goroutine is past it, and none before (nor
  when \<^verbatim>\<open>url.Parse\<close> has panicked).
\<close>

definition counted :: "label list \<Rightarrow> state \<Rightarrow> bool" where
  "counted ls s \<longleftrightarrow>
     (if decided (main s) \<and> main s \<noteq> panic ''url.Parse''
      then length (filter select_case ls) = 1 else filter select_case ls = [])"

section \<open>Properties\<close>

subsection \<open>The scanner\<close>

lemma isSpace_LF: "isSpace LF" by (simp add: isSpace_def space_def LF_def)
lemma isSpace_CR: "isSpace CR" by (simp add: isSpace_def space_def CR_def)
lemma isSpace_blank: "isSpace (CHR '' '')" by (simp add: isSpace_def space_def)

lemma SkipSpace_blank: "isSpace r \<Longrightarrow> r \<noteq> LF \<Longrightarrow> SkipSpace (r # rs) = SkipSpace rs"
  by simp

lemma SkipSpace_blanks:
  "\<forall>r\<in>set sp. isSpace r \<and> r \<noteq> LF \<Longrightarrow> SkipSpace (sp @ rs) = SkipSpace rs"
  by (induction sp) (simp_all del: SkipSpace.simps add: SkipSpace_blank)

lemma SkipSpace_LF: "SkipSpace (LF # rs) = (Some UnexpectedNewline, rs)"
  using isSpace_LF by (auto simp add: LF_def CR_def)

lemma SkipSpace_word: "\<not> isSpace r \<Longrightarrow> SkipSpace (r # rs) = (None, r # rs)"
  using isSpace_LF isSpace_CR by auto

lemma scan_token_word:
  "\<forall>r\<in>set t. \<not> isSpace r \<Longrightarrow> rest = [] \<or> isSpace (hd rest) \<Longrightarrow> scan_token (t @ rest) = (t, rest)"
  by (cases rest) (auto simp add: scan_token_def takeWhile_append dropWhile_append)

lemma dropWhile_blanks:
  "\<forall>r\<in>set sp. isSpace r \<and> r \<noteq> LF \<Longrightarrow>
   dropWhile (\<lambda>r. isSpace r \<and> r \<noteq> LF) (sp @ rs) = dropWhile (\<lambda>r. isSpace r \<and> r \<noteq> LF) rs"
  by (induction sp) simp_all

lemma advance_blanks:
  "sp \<noteq> [] \<Longrightarrow> \<forall>r\<in>set sp. isSpace r \<and> r \<noteq> LF \<Longrightarrow>
   advance (sp @ rs) = (None, dropWhile (\<lambda>r. isSpace r \<and> r \<noteq> LF) rs)"
  by (cases sp) (simp_all add: advance_def dropWhile_blanks)

lemma advance_LF: "advance (LF # rs) = (Some NewlineInInput, rs)"
  by (simp add: advance_def isSpace_LF)

lemma Scanf_both:
  "SkipSpace inp = (None, r1) \<Longrightarrow> r1 \<noteq> [] \<Longrightarrow> scan_token r1 = (t1, r2) \<Longrightarrow>
   advance r2 = (None, r3) \<Longrightarrow> SkipSpace r3 = (None, r4) \<Longrightarrow> r4 \<noteq> [] \<Longrightarrow>
   scan_token r4 = (t2, r5) \<Longrightarrow>
   Scanf inp = \<lparr>count = 2, err = None, tokenType = t1, tokenValue = t2, unread = tl r5\<rparr>"
  by (simp add: Scanf_def)

lemma Scanf_none:
  "SkipSpace inp = (Some e, r1) \<Longrightarrow>
   Scanf inp = \<lparr>count = 0, err = Some e, tokenType = [], tokenValue = [], unread = r1\<rparr>"
  by (simp add: Scanf_def)

lemma Scanf_one_advance:
  "SkipSpace inp = (None, r1) \<Longrightarrow> r1 \<noteq> [] \<Longrightarrow> scan_token r1 = (t1, r2) \<Longrightarrow>
   advance r2 = (Some e, r3) \<Longrightarrow>
   Scanf inp = \<lparr>count = 1, err = Some e, tokenType = t1, tokenValue = [], unread = r3\<rparr>"
  by (simp add: Scanf_def)

lemma Scanf_one_skip:
  "SkipSpace inp = (None, r1) \<Longrightarrow> r1 \<noteq> [] \<Longrightarrow> scan_token r1 = (t1, r2) \<Longrightarrow>
   advance r2 = (None, r3) \<Longrightarrow> SkipSpace r3 = (Some e, r4) \<Longrightarrow>
   Scanf inp = \<lparr>count = 1, err = Some e, tokenType = t1, tokenValue = [], unread = r4\<rparr>"
  by (simp add: Scanf_def)

lemma SkipSpace_words: "t \<noteq> [] \<Longrightarrow> \<forall>r\<in>set t. \<not> isSpace r \<Longrightarrow> SkipSpace (t @ rs) = (None, t @ rs)"
  by (cases t) (simp_all add: SkipSpace_word del: SkipSpace.simps)

lemma Scanf_two_tokens:
  assumes sp0: "\<forall>r\<in>set sp0. isSpace r \<and> r \<noteq> LF"
    and k: "kind \<noteq> []" "\<forall>r\<in>set kind. \<not> isSpace r"
    and sp1: "sp1 \<noteq> []" "\<forall>r\<in>set sp1. isSpace r \<and> r \<noteq> LF"
    and v: "val \<noteq> []" "\<forall>r\<in>set val. \<not> isSpace r"
    and rest: "rest = [] \<or> isSpace (hd rest)"
  shows "Scanf (sp0 @ kind @ sp1 @ val @ rest) =
    \<lparr>count = 2, err = None, tokenType = kind, tokenValue = val, unread = tl rest\<rparr>"
proof (rule Scanf_both)
  show "SkipSpace (sp0 @ kind @ sp1 @ val @ rest) = (None, kind @ sp1 @ val @ rest)"
    using sp0 k by (simp add: SkipSpace_blanks SkipSpace_words del: SkipSpace.simps)
  show "kind @ sp1 @ val @ rest \<noteq> []" using k by simp
  show "scan_token (kind @ sp1 @ val @ rest) = (kind, sp1 @ val @ rest)"
    using k(2) sp1 by (intro scan_token_word) (cases sp1; simp)+
  show "advance (sp1 @ val @ rest) = (None, val @ rest)"
    using sp1 v by (cases val) (simp_all add: advance_blanks)
  show "SkipSpace (val @ rest) = (None, val @ rest)"
    using v by (simp add: SkipSpace_words del: SkipSpace.simps)
  show "val @ rest \<noteq> []" using v by simp
  show "scan_token (val @ rest) = (val, rest)"
    using v(2) rest by (intro scan_token_word)
qed

lemma Scanf_malformed:
  assumes sp0: "\<forall>r\<in>set sp0. isSpace r \<and> r \<noteq> LF"
    and t: "\<forall>r\<in>set tok. \<not> isSpace r"
    and sp1: "\<forall>r\<in>set sp1. isSpace r \<and> r \<noteq> LF"
  shows "\<exists>e. Scanf (sp0 @ tok @ sp1 @ LF # rest) =
    \<lparr>count = (if tok = [] then 0 else 1), err = Some e, tokenType = tok, tokenValue = [],
     unread = rest\<rparr>"
proof (cases "tok = []")
  case True
  have "SkipSpace (sp0 @ sp1 @ LF # rest) = (Some UnexpectedNewline, rest)"
    using sp0 sp1 by (simp add: SkipSpace_blanks SkipSpace_LF del: SkipSpace.simps)
  then show ?thesis using True by (simp add: Scanf_none)
next
  case False
  have 1: "SkipSpace (sp0 @ tok @ sp1 @ LF # rest) = (None, tok @ sp1 @ LF # rest)"
    using sp0 t False by (simp add: SkipSpace_blanks SkipSpace_words del: SkipSpace.simps)
  have 2: "scan_token (tok @ sp1 @ LF # rest) = (tok, sp1 @ LF # rest)"
    using t sp1 by (intro scan_token_word) (cases sp1; simp add: isSpace_LF)+
  have 0: "tok @ sp1 @ LF # rest \<noteq> []" by simp
  show ?thesis
  proof (cases sp1)
    case Nil
    then have "advance (sp1 @ LF # rest) = (Some NewlineInInput, rest)"
      by (simp add: advance_LF)
    from Scanf_one_advance [OF 1 0 2 this] show ?thesis using False by simp
  next
    case (Cons c cs)
    then have "sp1 \<noteq> []" by simp
    from advance_blanks [OF this sp1] have 3: "advance (sp1 @ LF # rest) = (None, LF # rest)"
      by simp
    from Scanf_one_skip [OF 1 0 2 3 SkipSpace_LF] show ?thesis using False by simp
  qed
qed

lemma Scanf_eof: "Scanf [] = \<lparr>count = 0, err = Some EOF, tokenType = [], tokenValue = [], unread = []\<rparr>"
  by (simp add: Scanf_def)

lemma Scanf_tokens_no_space:
  "(\<forall>r\<in>set (tokenType (Scanf inp)). \<not> isSpace r) \<and> (\<forall>r\<in>set (tokenValue (Scanf inp)). \<not> isSpace r)"
  by (auto simp add: Scanf_def scan_token_def split: prod.splits option.splits dest: set_takeWhileD)

lemma Scanf_count_err: "(err (Scanf inp) = None) = (count (Scanf inp) = 2)"
  by (auto simp add: Scanf_def split: prod.splits option.splits)

subsection \<open>The examples are runs of the program\<close>


subsection \<open>Manual input\<close>

text \<open>
  Claim C10. A line of manual input that holds no token or one token (spaces, at most
  one run of runes that are no spaces, spaces, newline) makes \<^verbatim>\<open>waitForTokenInput\<close>
  print its prompt and the hint on the format, and go back to the head of its loop with
  the line consumed. Nothing else of the state changes: no token string is offered to
  the \<^verbatim>\<open>select\<close>, and the main goroutine stays where it was.
\<close>

theorem malformed_line_reprompts:
  assumes "reader s = reader_loop"
    and "stdin s = sp0 @ tok @ sp1 @ LF # rest"
    and "\<forall>r\<in>set sp0. isSpace r \<and> r \<noteq> LF"
    and "\<forall>r\<in>set tok. \<not> isSpace r"
    and "\<forall>r\<in>set sp1. isSpace r \<and> r \<noteq> LF"
  shows "step command w Reader s =
    Some (s\<lparr>stdout := stdout s @ [''or enter token manually: '', format_hint],
            stdin := rest\<rparr>)"
proof -
  from Scanf_malformed [OF assms(3-5), of rest] obtain e where
    "Scanf (stdin s) = \<lparr>count = (if tok = [] then 0 else 1), err = Some e, tokenType = tok,
       tokenValue = [], unread = rest\<rparr>"
    using assms(2) by auto
  then show ?thesis using assms(1) by (simp add: reader_step_def)
qed

theorem malformed_line_reprompts_witness:
  "step example_command example_world Reader (example_racing (''Bearer'' @ LF # ''bearer x'')) =
   Some ((example_racing (''Bearer'' @ LF # ''bearer x''))
     \<lparr>stdout := stdout (example_racing (''Bearer'' @ LF # ''bearer x'')) @
        [''or enter token manually: '', format_hint],
      stdin := ''bearer x''\<rparr>)"
  using malformed_line_reprompts [of "example_racing (''Bearer'' @ LF # ''bearer x'')"
      "[]" "''Bearer''" "[]" "''bearer x''" example_command example_world]
  by (simp add: example_racing_def isSpace_def space_def)

subsection \<open>The split of the token string\<close>

lemma SplitN_two:
  "SplitN s sep 2 =
     (if sep \<in> set s then [takeWhile (\<lambda>c. c \<noteq> sep) s, tl (dropWhile (\<lambda>c. c \<noteq> sep) s)] else [s])"
  by (simp add: numeral_2_eq_2)

lemma split_token_first_space:
  "CHR '' '' \<notin> set kind \<Longrightarrow> split_token (kind @ '' '' @ v) = Execute_save kind v"
  by (simp add: split_token_def SplitN_two takeWhile_append dropWhile_append)

lemma split_token_no_space:
  "CHR '' '' \<notin> set tokenStr \<Longrightarrow> split_token tokenStr = panic ''index out of range''"
  by (simp add: split_token_def SplitN_two)

lemma no_space_no_blank: "\<forall>r\<in>set t. \<not> isSpace r \<Longrightarrow> CHR '' '' \<notin> set t"
  using isSpace_blank by auto


subsection \<open>Two tokens\<close>

text \<open>
  Claim C8. A line of manual input with two tokens, \<open>kind\<close> and \<open>val\<close>, set apart by
  spaces: \<^verbatim>\<open>waitForTokenInput\<close> prints its prompt once and offers \<open>kind\<close>, a space and
  \<open>val\<close>; the \<^verbatim>\<open>select\<close> receives it, and the split gives back the pair \<open>kind\<close> and
  \<open>val\<close> as token type and token value. The reader takes no further turn of its loop,
  neither while it waits with its token string nor after it has handed it over.
\<close>

theorem two_token_line_yields_credential:
  assumes "main s = authCodeGrant_select" and "reader s = reader_loop"
    and "stdin s = sp0 @ kind @ sp1 @ val @ rest"
    and "\<forall>r\<in>set sp0. isSpace r \<and> r \<noteq> LF"
    and "kind \<noteq> []" and "\<forall>r\<in>set kind. \<not> isSpace r"
    and "sp1 \<noteq> []" and "\<forall>r\<in>set sp1. isSpace r \<and> r \<noteq> LF"
    and "val \<noteq> []" and "\<forall>r\<in>set val. \<not> isSpace r"
    and "rest = [] \<or> isSpace (hd rest)"
  shows "exec command w [Reader, stdinChannel, Main] s =
      Some (s\<lparr>main := Execute_save kind val, reader := reader_exit, stdin := tl rest,
              stdout := stdout s @ [''or enter token manually: '']\<rparr>) \<and>
    exec command w [Reader, Reader] s = None \<and>
    exec command w [Reader, stdinChannel, Reader] s = None"
proof -
  have sc: "Scanf (stdin s) =
      \<lparr>count = 2, err = None, tokenType = kind, tokenValue = val, unread = tl rest\<rparr>"
    unfolding assms(3) using assms(4-11) by (rule Scanf_two_tokens)
  define s1 where "s1 = s\<lparr>stdout := stdout s @ [''or enter token manually: ''], stdin := tl rest,
              reader := reader_token (kind @ '' '' @ val)\<rparr>"
  have r: "reader_step s = Some s1"
    using assms(2) by (simp add: reader_step_def sc s1_def)
  have r1: "reader_step s1 = None"
    by (simp add: reader_step_def s1_def)
  have sp: "split_token (kind @ '' '' @ val) = Execute_save kind val"
    using assms(6) by (intro split_token_first_space no_space_no_blank)
  have m: "main s1 = authCodeGrant_select" "reader s1 = reader_token (kind @ '' '' @ val)"
    using assms(1) by (simp_all add: s1_def)
  show ?thesis
    by (simp add: r r1 m main_step_def) (simp add: s1_def sp [simplified] reader_step_def)
qed

theorem two_token_line_yields_credential_witness:
  "exec example_command example_world [Reader, stdinChannel, Main]
     (example_racing (''bearer mytoken123'' @ [LF])) =
   Some ((example_racing (''bearer mytoken123'' @ [LF]))
      \<lparr>main := Execute_save ''bearer'' ''mytoken123'', reader := reader_exit, stdin := [],
       stdout := stdout (example_racing (''bearer mytoken123'' @ [LF])) @ [''or enter token manually: '']\<rparr>) \<and>
   exec example_command example_world [Reader, Reader] (example_racing (''bearer mytoken123'' @ [LF])) = None \<and>
   exec example_command example_world [Reader, stdinChannel, Reader] (example_racing (''bearer mytoken123'' @ [LF])) = None"
  using two_token_line_yields_credential [of "example_racing (''bearer mytoken123'' @ [LF])"
      "[]" "''bearer''" "'' ''" "''mytoken123''" "[LF]" example_command example_world]
  by (simp add: example_racing_def isSpace_def space_def LF_def)


subsection \<open>End of input\<close>

lemma reader_at_eof_step:
  assumes "reader s = reader_loop \<and> stdin s = []" and "step command w l s = Some s'"
  shows "reader s' = reader_loop \<and> stdin s' = []"
proof (cases l)
  case Main
  then show ?thesis using assms
    by (auto simp add: main_step_def saveTarget_def Let_def
        split: main_pc.splits if_splits sum.splits prod.splits option.splits)
next
  case Reader
  then show ?thesis using assms by (auto simp add: reader_step_def Scanf_eof)
next
  case Listener
  then show ?thesis using assms
    by (auto simp add: listener_step_def split: listener_pc.splits option.splits sum.splits)
next
  case (Handler i)
  then show ?thesis using assms by (auto simp add: handler_step_def split: if_splits handler_pc.splits)
qed (use assms in \<open>auto split: if_splits main_pc.splits listener_pc.splits handler_pc.splits reader_pc.splits\<close>)

text \<open>
  Claim C2, at the input on which the code departs from it: standard input at its end
  with no token read. A turn of the loop prints the prompt and the hint and goes back to
  the head of the loop; whatever the schedule, the reader is at the head of its loop
  again with the input still at its end, so it never offers an error and never returns.
\<close>

theorem reader_at_eof_never_stops:
  assumes "reader s = reader_loop" and "stdin s = []" and "exec command w ls s = Some s'"
  shows "step command w Reader s =
      Some (s\<lparr>stdout := stdout s @ [''or enter token manually: '', format_hint]\<rparr>) \<and>
    reader s' = reader_loop \<and> stdin s' = []"
proof -
  have "reader s = reader_loop \<and> stdin s = [] \<Longrightarrow> exec command w ls s = Some s' \<Longrightarrow>
      reader s' = reader_loop \<and> stdin s' = []"
  proof (induction ls arbitrary: s)
    case Nil
    then show ?case by simp
  next
    case (Cons l ls)
    then obtain s1 where 1: "step command w l s = Some s1" and 2: "exec command w ls s1 = Some s'"
      by (auto split: option.splits)
    from reader_at_eof_step [OF Cons.prems(1) 1] Cons.IH 2 show ?case by blast
  qed
  moreover have "step command w Reader s =
      Some (s\<lparr>stdout := stdout s @ [''or enter token manually: '', format_hint]\<rparr>)"
    using assms(1,2) by (simp add: reader_step_def Scanf_eof)
  ultimately show ?thesis using assms by blast
qed

theorem reader_at_eof_never_stops_witness:
  "step example_command example_world Reader (example_racing []) =
      Some ((example_racing [])\<lparr>stdout := stdout (example_racing []) @ [''or enter token manually: '', format_hint]\<rparr>) \<and>
   map_option reader (exec example_command example_world [Reader, Reader, Reader] (example_racing [])) = Some reader_loop"
  using reader_at_eof_never_stops [of "example_racing []" example_command example_world "[Reader, Reader, Reader]"]
  by (simp add: example_racing_def reader_step_def Scanf_eof)

subsection \<open>The callback\<close>

lemma callback_run:
  assumes "main s = authCodeGrant_select" and "listener s = listener_serve"
  shows "exec command w [Request p t, tokenChannel (length (handlers s)), Main] s =
    Some (s\<lparr>main := split_token t, handlers := handlers s @ [handler_redirect p]\<rparr>)"
  using assms by (simp add: main_step_def)

text \<open>
  Claim C5. While the main goroutine waits in its \<^verbatim>\<open>select\<close> and the listener serves, a
  request whose \<^verbatim>\<open>token\<close> parameter is \<^verbatim>\<open>Bearer abc123\<close>, once the \<^verbatim>\<open>select\<close> has
  received it, gives the token type \<^verbatim>\<open>Bearer\<close> and the token value \<^verbatim>\<open>abc123\<close>, and its
  handler answers with a redirect of status 307. Its location is the target URL followed
  by \<^verbatim>\<open>/public/fly_success\<close> when \<^verbatim>\<open>http.Redirect\<close> writes that URL as it is, which it
  does for a target URL with a scheme or a host.
\<close>

theorem callback_bearer_abc123:
  assumes "main s = authCodeGrant_select" and "listener s = listener_serve"
    and "http_Redirect w p (client_URL w @ ''/public/fly_success'') =
      client_URL w @ ''/public/fly_success''"
  shows "exec command w
      [Request p ''Bearer abc123'', tokenChannel (length (handlers s)), Main,
       Handler (length (handlers s))] s =
    Some (s\<lparr>main := Execute_save ''Bearer'' ''abc123'',
            handlers := handlers s @
              [handler_done \<lparr>location = client_URL w @ ''/public/fly_success'', status = 307\<rparr>]\<rparr>)"
proof -
  have "split_token ''Bearer abc123'' = Execute_save ''Bearer'' ''abc123''"
    using split_token_first_space [of "''Bearer''" "''abc123''"] by simp
  then show ?thesis
    using assms by (simp add: main_step_def handler_step_def StatusTemporaryRedirect_def)
qed

theorem callback_bearer_abc123_witness:
  "exec example_command example_world
      [Request ''/auth/callback'' ''Bearer abc123'', tokenChannel 0, Main, Handler 0]
      (example_racing []) =
    Some ((example_racing [])\<lparr>main := Execute_save ''Bearer'' ''abc123'',
            handlers :=
              [handler_done \<lparr>location = ''https://ci.example.com/public/fly_success'',
                 status = 307\<rparr>]\<rparr>)"
  using callback_bearer_abc123 [where s = "example_racing []" and command = example_command
      and w = example_world and p = "''/auth/callback''"]
  by (simp add: example_racing_def example_world_def)

text \<open>
  Claim C3, at the input on which the code departs from it: a request whose \<^verbatim>\<open>token\<close>
  parameter holds no space (the empty string among them). The \<^verbatim>\<open>select\<close> receives it,
  the split gives one segment, and the read of \<^verbatim>\<open>segments[1]\<close> stops the main goroutine
  with a panic.
\<close>

theorem callback_token_without_space_panics:
  assumes "main s = authCodeGrant_select" and "listener s = listener_serve"
    and "CHR '' '' \<notin> set t"
  shows "exec command w [Request p t, tokenChannel (length (handlers s)), Main] s =
    Some (s\<lparr>main := panic ''index out of range'',
            handlers := handlers s @ [handler_redirect p]\<rparr>)"
  using callback_run [OF assms(1,2)] split_token_no_space [OF assms(3)] by simp

theorem callback_token_without_space_panics_witness:
  "exec example_command example_world [Request ''/auth/callback'' ''abc123'', tokenChannel 0, Main]
      (example_racing []) =
    Some ((example_racing [])\<lparr>main := panic ''index out of range'', handlers := [handler_redirect ''/auth/callback'']\<rparr>) \<and>
   exec example_command example_world [Request ''/auth/callback'' [], tokenChannel 0, Main]
      (example_racing []) =
    Some ((example_racing [])\<lparr>main := panic ''index out of range'', handlers := [handler_redirect ''/auth/callback'']\<rparr>)"
  using callback_token_without_space_panics [where s = "example_racing []" and t = "''abc123''"
      and command = example_command and w = example_world and p = "''/auth/callback''"]
    callback_token_without_space_panics [where s = "example_racing []" and t = "[]"
      and command = example_command and w = example_world and p = "''/auth/callback''"]
  by (simp add: example_racing_def)


subsection \<open>What becomes the value\<close>

text \<open>
  Claim C9, as amended. The token string is split at its first space only and all that
  follows that space is the value: sent by a request, the text \<open>kind val extra\<close> gives
  the value \<open>val extra\<close>. Read from manual input, the same text gives the value \<open>val\<close>,
  the second token, and \<open>extra\<close> stays unread on standard input.
\<close>

theorem value_by_route:
  assumes "main s = authCodeGrant_select" and "reader s = reader_loop"
    and "listener s = listener_serve"
    and "kind \<noteq> []" and "\<forall>r\<in>set kind. \<not> isSpace r"
    and "val \<noteq> []" and "\<forall>r\<in>set val. \<not> isSpace r"
    and "stdin s = kind @ '' '' @ val @ '' '' @ extra"
  shows "map_option main (exec command w
        [Request p (kind @ '' '' @ val @ '' '' @ extra), tokenChannel (length (handlers s)), Main] s) =
      Some (Execute_save kind (val @ '' '' @ extra)) \<and>
    map_option main (exec command w [Reader, stdinChannel, Main] s) =
      Some (Execute_save kind val) \<and>
    map_option stdin (exec command w [Reader, stdinChannel, Main] s) = Some extra"
proof -
  have "split_token (kind @ '' '' @ val @ '' '' @ extra) = Execute_save kind (val @ '' '' @ extra)"
    using assms(5) by (intro split_token_first_space no_space_no_blank)
  with callback_run [OF assms(1,3)] have 1: "map_option main (exec command w
        [Request p (kind @ '' '' @ val @ '' '' @ extra), tokenChannel (length (handlers s)), Main] s) =
      Some (Execute_save kind (val @ '' '' @ extra))"
    by simp
  have sc: "Scanf (stdin s) =
      \<lparr>count = 2, err = None, tokenType = kind, tokenValue = val, unread = tl ('' '' @ extra)\<rparr>"
    using Scanf_two_tokens [of "[]" kind "'' ''" val "'' '' @ extra"] assms(4-8)
    by (simp add: isSpace_blank LF_def)
  have sp: "split_token (kind @ '' '' @ val) = Execute_save kind val"
    using assms(5) by (intro split_token_first_space no_space_no_blank)
  have r: "reader_step s = Some (s\<lparr>stdout := stdout s @ [''or enter token manually: ''],
      stdin := extra, reader := reader_token (kind @ '' '' @ val)\<rparr>)"
    using assms(2) by (simp add: reader_step_def sc)
  have 2: "exec command w [Reader, stdinChannel, Main] s =
      Some (s\<lparr>stdout := stdout s @ [''or enter token manually: ''],
      stdin := extra, reader := reader_exit, main := Execute_save kind val\<rparr>)"
    using assms(1) by (simp add: r main_step_def sp [simplified])
  show ?thesis using 1 by (simp add: 2 del: exec.simps)
qed

theorem value_by_route_witness:
  "map_option main (exec example_command example_world
        [Request ''/auth/callback'' ''Bearer abc def'', tokenChannel 0, Main] (example_racing ''Bearer abc def'')) =
      Some (Execute_save ''Bearer'' ''abc def'') \<and>
    map_option main (exec example_command example_world [Reader, stdinChannel, Main] (example_racing ''Bearer abc def'')) =
      Some (Execute_save ''Bearer'' ''abc'') \<and>
    map_option stdin (exec example_command example_world [Reader, stdinChannel, Main] (example_racing ''Bearer abc def'')) = Some ''def''"
  using value_by_route [where s = "example_racing ''Bearer abc def''" and kind = "''Bearer''"
      and val = "''abc''" and extra = "''def''" and command = example_command
      and w = example_world and p = "''/auth/callback''"]
  by (simp add: example_racing_def isSpace_def space_def)

text \<open>
  Claim C9 as it was stated fails on the manual input \<^verbatim>\<open>Bearer abc def\<close>: the value is
  \<^verbatim>\<open>abc\<close>, not \<^verbatim>\<open>abc def\<close>.
\<close>

theorem manual_value_drops_further_content:
  "map_option main (exec example_command example_world [Reader, stdinChannel, Main]
      (example_racing (''Bearer abc def'' @ [LF]))) = Some (Execute_save ''Bearer'' ''abc'') \<and>
   map_option main (exec example_command example_world [Reader, stdinChannel, Main]
      (example_racing (''Bearer abc def'' @ [LF]))) \<noteq> Some (Execute_save ''Bearer'' ''abc def'')"
  by (simp add: example_racing_def reader_step_def main_step_def Scanf_def scan_token_def
      advance_def isSpace_def space_def LF_def CR_def split_token_def SplitN_two)

subsection \<open>Runs and invariants\<close>

lemma exec_append:
  "exec command w (ls1 @ ls2) s =
     (case exec command w ls1 s of None \<Rightarrow> None | Some s1 \<Rightarrow> exec command w ls2 s1)"
  by (induction ls1 arbitrary: s) (simp_all split: option.splits)

lemma exec_invariant:
  assumes "\<And>l s s'. I s \<Longrightarrow> step command w l s = Some s' \<Longrightarrow> I s'"
    and "I s" and "exec command w ls s = Some s'"
  shows "I s'"
  using assms(2,3)
proof (induction ls arbitrary: s)
  case Nil
  then show ?case by simp
next
  case (Cons l ls)
  then obtain s1 where 1: "step command w l s = Some s1" and 2: "exec command w ls s1 = Some s'"
    by (auto split: option.splits)
  from assms(1) [OF Cons.prems(1) 1] Cons.IH 2 show ?case by blast
qed

lemma split_token_cases:
  "(\<exists>m. split_token tokenStr = panic m) \<or> (\<exists>t v. split_token tokenStr = Execute_save t v)"
  by (simp add: split_token_def Let_def)

lemma step_Request:
  "step command w (Request p t) s = Some s' \<Longrightarrow>
   listener s = listener_serve \<and> s' = s\<lparr>handlers := handlers s @ [handler_token p t]\<rparr>"
  by (auto split: if_splits)

lemma step_ServeFails:
  "step command w (ServeFails e) s = Some s' \<Longrightarrow>
   listener s = listener_serve \<and> s' = s\<lparr>listener := listener_error e\<rparr>"
  by (auto split: if_splits)

lemma step_Handler:
  "step command w (Handler i) s = Some s' \<Longrightarrow>
   i < length (handlers s) \<and> (\<exists>p. handlers s ! i = handler_redirect p) \<and>
   (\<exists>r. s' = s\<lparr>handlers := (handlers s)[i := handler_done r]\<rparr>)"
  by (auto simp add: handler_step_def split: if_splits handler_pc.splits)

lemma step_Listener:
  "step command w Listener s = Some s' \<Longrightarrow>
   listener s = listener_bind \<and>
   ((\<exists>e. s' = s\<lparr>listener := listener_error e\<rparr>) \<or>
    (\<exists>p. net_Listen w = None \<and> net_SplitHostPort w = Inr p \<and>
       s' = s\<lparr>listener := listener_port p\<rparr>))"
  by (auto simp add: listener_step_def split: listener_pc.splits option.splits sum.splits)

lemma step_Reader:
  "step command w Reader s = Some s' \<Longrightarrow>
   reader s = reader_loop \<and>
   (\<exists>more r. r \<noteq> reader_idle \<and>
      s' = s\<lparr>stdout := stdout s @ ''or enter token manually: '' # more,
             stdin := unread (Scanf (stdin s)), reader := r\<rparr>)"
proof -
  assume a: "step command w Reader s = Some s'"
  then have l: "reader s = reader_loop" by (auto simp add: reader_step_def split: if_splits)
  show ?thesis
  proof (cases "err (Scanf (stdin s))")
    case None
    then have "s' = s\<lparr>stdout := stdout s @ ''or enter token manually: '' # [],
             stdin := unread (Scanf (stdin s)),
             reader := reader_token (tokenType (Scanf (stdin s)) @ '' '' @ tokenValue (Scanf (stdin s)))\<rparr>"
      using a l by (simp add: reader_step_def Let_def)
    then show ?thesis using l by blast
  next
    case (Some e)
    show ?thesis
    proof (cases "count (Scanf (stdin s)) = 2")
      case True
      then have "s' = s\<lparr>stdout := stdout s @ ''or enter token manually: '' # [],
             stdin := unread (Scanf (stdin s)), reader := reader_error e\<rparr>"
        using a l Some by (simp add: reader_step_def Let_def)
      then show ?thesis using l by blast
    next
      case False
      then have "s' = s\<lparr>stdout := stdout s @ ''or enter token manually: '' # [format_hint],
             stdin := unread (Scanf (stdin s))\<rparr>"
        using a l Some by (auto simp add: reader_step_def Let_def)
      then have "s' = s\<lparr>stdout := stdout s @ ''or enter token manually: '' # [format_hint],
             stdin := unread (Scanf (stdin s)), reader := reader_loop\<rparr>"
        using l by (cases s) simp
      then show ?thesis using l by blast
    qed
  qed
qed

lemma step_portChannel:
  "step command w portChannel s = Some s' \<Longrightarrow>
   main s = authCodeGrant_port \<and>
   (\<exists>p. listener s = listener_port p \<and>
      s' = s\<lparr>main := authCodeGrant_url p, listener := listener_serve\<rparr>)"
  by (auto split: main_pc.splits listener_pc.splits)

lemma step_tokenChannel:
  "step command w (tokenChannel i) s = Some s' \<Longrightarrow>
   main s = authCodeGrant_select \<and> i < length (handlers s) \<and>
   (\<exists>p t. handlers s ! i = handler_token p t \<and>
      s' = s\<lparr>main := authCodeGrant_split t, handlers := (handlers s)[i := handler_redirect p]\<rparr>)"
  by (auto split: if_splits handler_pc.splits)

lemma step_stdinChannel:
  "step command w stdinChannel s = Some s' \<Longrightarrow>
   main s = authCodeGrant_select \<and>
   (\<exists>t. reader s = reader_token t \<and>
      s' = s\<lparr>main := authCodeGrant_split t, reader := reader_exit\<rparr>)"
  by (auto split: main_pc.splits reader_pc.splits)

lemma step_errorChannel_listener:
  "step command w errorChannel_listener s = Some s' \<Longrightarrow>
   main s = authCodeGrant_select \<and>
   (\<exists>e. listener s = listener_error e \<and>
      s' = s\<lparr>main := Execute_return (Some e), listener := listener_exit\<rparr>)"
  by (auto split: main_pc.splits listener_pc.splits)

lemma step_errorChannel_reader:
  "step command w errorChannel_reader s = Some s' \<Longrightarrow>
   main s = authCodeGrant_select \<and>
   (\<exists>e. reader s = reader_error e \<and>
      s' = s\<lparr>main := Execute_return (Some e), reader := reader_exit\<rparr>)"
  by (auto split: main_pc.splits reader_pc.splits)

lemma main_step_save:
  assumes "main s = Execute_save t v" and "main_step command w s = Some s'"
  shows "\<exists>more r e. s' = s\<lparr>stdout := stdout s @ Println [] # more, saves := saves s @ [r],
      main := Execute_return e\<rparr> \<and> target_token r = \<lparr>Type = t, Value = v\<rparr>"
proof -
  define r where "r = \<lparr>target_name = Fly_Target w, target_url = client_URL w,
                target_insecure = Insecure command, target_team = TeamName command,
                target_token = \<lparr>Type = t, Value = v\<rparr>,
                target_caCert = target_CACert w\<rparr>"
  have t: "target_token r = \<lparr>Type = t, Value = v\<rparr>" by (simp add: r_def)
  show ?thesis
  proof (cases "rc_SaveTarget w r")
    case None
    then have "s' = s\<lparr>stdout := stdout s @ Println [] # [Println ''target saved''],
        saves := saves s @ [r], main := Execute_return None\<rparr>"
      using assms by (auto simp add: main_step_def saveTarget_def Let_def r_def)
    with t show ?thesis by blast
  next
    case (Some e)
    then have "s' = s\<lparr>stdout := stdout s @ Println [] # [],
        saves := saves s @ [r], main := Execute_return (Some e)\<rparr>"
      using assms by (auto simp add: main_step_def saveTarget_def Let_def r_def)
    with t show ?thesis by blast
  qed
qed


subsection \<open>A bind that fails\<close>

lemma bind_failed_step:
  assumes "net_Listen w = Some e" and "Username command = [] \<or> Password command = []"
    and "bind_failed e s" and "step command w l s = Some s'"
  shows "bind_failed e s'"
proof (cases l)
  case Main
  then show ?thesis using assms
    by (auto simp add: bind_failed_def main_step_def split: if_splits)
next
  case Listener
  then show ?thesis using assms
    by (auto simp add: bind_failed_def listener_step_def)
next
  case (Handler i)
  then show ?thesis using assms by (auto simp add: bind_failed_def handler_step_def split: if_splits handler_pc.splits)
next
  case Reader
  then show ?thesis using assms by (auto simp add: bind_failed_def reader_step_def)
qed (use assms in \<open>auto simp add: bind_failed_def split: if_splits\<close>)

lemma bind_failed_stuck:
  assumes "main s = authCodeGrant_port" and "listener s = listener_error e"
    and "handlers s = []" and "reader s = reader_idle"
  shows "step command w l s = None"
  using assms
  by (cases l) (simp_all add: main_step_def listener_step_def handler_step_def reader_step_def)

text \<open>
  Claim C1, at the input on which the code departs from it: \<^verbatim>\<open>net.Listen\<close> fails with
  \<open>e\<close>. In every state of every run the main goroutine is before or at its receive from
  \<^verbatim>\<open>portChannel\<close>, so \<^verbatim>\<open>Execute\<close> never returns \<open>e\<close>; nothing is printed and the manual
  reader is not started. After the two steps that exist, the main goroutine waits for
  the port, the listener waits for a receiver of its error, and no step is left.
\<close>

theorem bind_failure_is_never_reported:
  assumes "net_Listen w = Some e" and "Username command = [] \<or> Password command = []"
    and "exec command w ls (start inp) = Some s"
  shows "(main s = Execute_grant \<or> main s = authCodeGrant_port) \<and>
    reader s = reader_idle \<and> stdout s = [] \<and>
    exec command w [Main, Listener] (start inp) =
      Some ((start inp)\<lparr>main := authCodeGrant_port, listener := listener_error e\<rparr>) \<and>
    (\<forall>l. step command w l ((start inp)\<lparr>main := authCodeGrant_port, listener := listener_error e\<rparr>) = None)"
proof -
  have "bind_failed e (start inp)" by (simp add: bind_failed_def start_def)
  with assms have "bind_failed e s"
    using exec_invariant [where I = "bind_failed e" and command = command and w = w]
      bind_failed_step by blast
  moreover have "exec command w [Main, Listener] (start inp) =
      Some ((start inp)\<lparr>main := authCodeGrant_port, listener := listener_error e\<rparr>)"
    using assms(1,2) by (auto simp add: start_def main_step_def listener_step_def)
  moreover have "\<forall>l. step command w l ((start inp)\<lparr>main := authCodeGrant_port, listener := listener_error e\<rparr>) = None"
    by (intro allI bind_failed_stuck) (simp_all add: start_def)
  ultimately show ?thesis by (auto simp add: bind_failed_def)
qed

theorem bind_failure_is_never_reported_witness:
  "map_option main (exec example_command (example_world\<lparr>net_Listen := Some (Msg ''permission denied'')\<rparr>)
      [Main, Listener] (start [])) = Some authCodeGrant_port \<and>
   map_option stdout (exec example_command (example_world\<lparr>net_Listen := Some (Msg ''permission denied'')\<rparr>)
      [Main, Listener] (start [])) = Some [] \<and>
   (\<forall>l. step example_command (example_world\<lparr>net_Listen := Some (Msg ''permission denied'')\<rparr>) l
      ((start [])\<lparr>main := authCodeGrant_port, listener := listener_error (Msg ''permission denied'')\<rparr>) = None)"
  using bind_failure_is_never_reported [of "example_world\<lparr>net_Listen := Some (Msg ''permission denied'')\<rparr>"
      "Msg ''permission denied''" example_command "[Main, Listener]" "[]"
      "(start [])\<lparr>main := authCodeGrant_port, listener := listener_error (Msg ''permission denied'')\<rparr>"]
  by (simp add: example_command_def example_world_def start_def main_step_def listener_step_def)


subsection \<open>The password grant\<close>

lemma granted_step:
  assumes "Username command \<noteq> []" and "Password command \<noteq> []"
    and "granted command w inp s" and "step command w l s = Some s'"
  shows "granted command w inp s'"
proof (cases l)
  case Main
  then show ?thesis using assms
    by (auto simp add: granted_def main_step_def passwordGrant_def saveTarget_def Let_def
        split: sum.splits option.splits)
next
  case Listener
  then show ?thesis using assms by (auto simp add: granted_def listener_step_def)
next
  case (Handler i)
  then show ?thesis using assms by (auto simp add: granted_def handler_step_def split: if_splits handler_pc.splits)
next
  case Reader
  then show ?thesis using assms by (auto simp add: granted_def reader_step_def)
qed (use assms in \<open>auto simp add: granted_def split: if_splits sum.splits\<close>)

text \<open>
  Claim C6. With a username and a password that are both non-empty, the first step calls
  \<^verbatim>\<open>client.PasswordGrant\<close> once; its error ends \<^verbatim>\<open>Execute\<close> with that error and nothing
  saved, its token type and access token are what \<^verbatim>\<open>Execute\<close> goes on to save. In every
  state of every run the listener and the reader are not started, there is no handler,
  and standard input is untouched.
\<close>

theorem password_grant_skips_the_race:
  assumes "Username command \<noteq> []" and "Password command \<noteq> []"
    and "exec command w ls (start inp) = Some s"
  shows "listener s = listener_idle \<and> handlers s = [] \<and> reader s = reader_idle \<and>
    stdin s = inp \<and>
    (main s = Execute_grant \<and> grants s = [] \<and> saves s = [] \<or>
     grants s = [(Username command, Password command)] \<and>
     (case client_PasswordGrant w (Username command) (Password command) of
        Inl e \<Rightarrow> main s = Execute_return (Some e) \<and> saves s = []
      | Inr t \<Rightarrow>
          main s = Execute_save (TokenType t) (AccessToken t) \<and> saves s = [] \<or>
          (\<exists>r. main s = Execute_return r) \<and>
          map target_token (saves s) = [\<lparr>Type = TokenType t, Value = AccessToken t\<rparr>])) \<and>
    step command w Main (start inp) =
      Some ((start inp)
        \<lparr>grants := [(Username command, Password command)],
         main := (case client_PasswordGrant w (Username command) (Password command) of
                    Inl e \<Rightarrow> Execute_return (Some e)
                  | Inr t \<Rightarrow> Execute_save (TokenType t) (AccessToken t))\<rparr>)"
proof -
  have "granted command w inp (start inp)" by (simp add: granted_def start_def)
  with assms have "granted command w inp s"
    using exec_invariant [where I = "granted command w inp" and command = command and w = w]
      granted_step by blast
  moreover have "step command w Main (start inp) =
      Some ((start inp)
        \<lparr>grants := [(Username command, Password command)],
         main := (case client_PasswordGrant w (Username command) (Password command) of
                    Inl e \<Rightarrow> Execute_return (Some e)
                  | Inr t \<Rightarrow> Execute_save (TokenType t) (AccessToken t))\<rparr>)"
    using assms(1,2) by (simp add: main_step_def passwordGrant_def start_def split: sum.splits)
  ultimately show ?thesis unfolding granted_def by blast
qed

theorem password_grant_skips_the_race_witness:
  "map_option main (exec (example_command\<lparr>Username := ''brock-samson'', Password := ''pw''\<rparr>)
      example_world [Main] (start [])) = Some (Execute_save ''bearer'' ''xyz'') \<and>
   map_option listener (exec (example_command\<lparr>Username := ''brock-samson'', Password := ''pw''\<rparr>)
      example_world [Main] (start [])) = Some listener_idle \<and>
   map_option reader (exec (example_command\<lparr>Username := ''brock-samson'', Password := ''pw''\<rparr>)
      example_world [Main] (start [])) = Some reader_idle \<and>
   map_option grants (exec (example_command\<lparr>Username := ''brock-samson'', Password := ''pw''\<rparr>)
      example_world [Main] (start [])) = Some [(''brock-samson'', ''pw'')]"
  using password_grant_skips_the_race [of "example_command\<lparr>Username := ''brock-samson'', Password := ''pw''\<rparr>"
      example_world "[Main]" "[]"
      "(start [])\<lparr>grants := [(''brock-samson'', ''pw'')], main := Execute_save ''bearer'' ''xyz''\<rparr>"]
  by (simp add: example_command_def example_world_def start_def main_step_def passwordGrant_def)


subsection \<open>The login URL\<close>






subsection \<open>One outcome\<close>

lemma main_step_early:
  assumes "main_step command w s = Some s'"
    and "main s = Execute_grant \<or> (\<exists>p. main s = authCodeGrant_url p) \<or>
      (\<exists>t. main s = authCodeGrant_split t)"
  shows "saves s' = saves s \<and> handlers s' = handlers s \<and>
    (\<forall>r. main s' = Execute_return r \<longrightarrow> main s = Execute_grant) \<and>
    ((\<exists>t. main s = authCodeGrant_split t) \<longrightarrow> decided (main s') \<and> reader s' = reader s)"
proof -
  consider "main s = Execute_grant" | p where "main s = authCodeGrant_url p"
    | t where "main s = authCodeGrant_split t"
    using assms(2) by blast
  then show ?thesis
  proof cases
    case 1
    then show ?thesis using assms(1)
      by (auto simp add: main_step_def passwordGrant_def Let_def split: if_splits sum.splits)
  next
    case 2
    then show ?thesis using assms(1)
      by (auto simp add: main_step_def split: sum.splits)
  next
    case 3
    then have "s' = s\<lparr>main := split_token t\<rparr>" using assms(1) by (simp add: main_step_def)
    then show ?thesis using 3 split_token_cases [of t] by auto
  qed
qed

lemma main_step_enabled:
  assumes "main_step command w s = Some s'"
  shows "main s = Execute_grant \<or> (\<exists>p. main s = authCodeGrant_url p) \<or>
      (\<exists>t. main s = authCodeGrant_split t) \<or> (\<exists>t v. main s = Execute_save t v)"
  using assms by (cases "main s") (simp_all add: main_step_def)

lemma saved_once_step:
  assumes "saved_once s" and "step command w l s = Some s'"
  shows "saved_once s'"
proof (cases l)
  case Main
  with assms(2) have m: "main_step command w s = Some s'" by simp
  from main_step_enabled [OF m] consider
    "main s = Execute_grant \<or> (\<exists>p. main s = authCodeGrant_url p) \<or>
      (\<exists>t. main s = authCodeGrant_split t)" | t v where "main s = Execute_save t v"
    by blast
  then show ?thesis
  proof cases
    case 1
    then have "saves s = []" using assms(1) by (auto simp add: saved_once_def)
    then show ?thesis using main_step_early [OF m 1] by (simp add: saved_once_def)
  next
    case 2
    then have "saves s = []" using assms(1) by (auto simp add: saved_once_def)
    then show ?thesis using main_step_save [OF 2 m] by (auto simp add: saved_once_def)
  qed
next
  case Listener
  from step_Listener [OF assms(2) [unfolded \<open>l = _\<close>]] have "saves s' = saves s \<and> main s' = main s" by auto
  then show ?thesis using assms(1) by (simp add: saved_once_def)
next
  case (Handler i)
  from step_Handler [OF assms(2) [unfolded \<open>l = _\<close>]] have "saves s' = saves s \<and> main s' = main s" by auto
  then show ?thesis using assms(1) by (simp add: saved_once_def)
next
  case Reader
  from step_Reader [OF assms(2) [unfolded \<open>l = _\<close>]] have "saves s' = saves s \<and> main s' = main s" by auto
  then show ?thesis using assms(1) by (simp add: saved_once_def)
next
  case (Request p t)
  from step_Request [OF assms(2) [unfolded \<open>l = _\<close>]] have "saves s' = saves s \<and> main s' = main s" by auto
  then show ?thesis using assms(1) by (simp add: saved_once_def)
next
  case (ServeFails e)
  from step_ServeFails [OF assms(2) [unfolded \<open>l = _\<close>]] have "saves s' = saves s \<and> main s' = main s" by auto
  then show ?thesis using assms(1) by (simp add: saved_once_def)
next
  case portChannel
  from step_portChannel [OF assms(2) [unfolded \<open>l = _\<close>]] have "saves s' = saves s \<and> main s = authCodeGrant_port"
    by auto
  then show ?thesis using assms(1) by (simp add: saved_once_def)
next
  case (tokenChannel i)
  from step_tokenChannel [OF assms(2) [unfolded \<open>l = _\<close>]] have "saves s' = saves s \<and> main s = authCodeGrant_select"
    by auto
  then show ?thesis using assms(1) by (simp add: saved_once_def)
next
  case stdinChannel
  from step_stdinChannel [OF assms(2) [unfolded \<open>l = _\<close>]] have "saves s' = saves s \<and> main s = authCodeGrant_select"
    by auto
  then show ?thesis using assms(1) by (simp add: saved_once_def)
next
  case errorChannel_listener
  from step_errorChannel_listener [OF assms(2) [unfolded \<open>l = _\<close>]] have "saves s' = saves s \<and> main s = authCodeGrant_select" by auto
  then show ?thesis using assms(1) by (simp add: saved_once_def)
next
  case errorChannel_reader
  from step_errorChannel_reader [OF assms(2) [unfolded \<open>l = _\<close>]] have "saves s' = saves s \<and> main s = authCodeGrant_select" by auto
  then show ?thesis using assms(1) by (simp add: saved_once_def)
qed

lemma select_case_step:
  assumes "step command w l s = Some s'" and "select_case l"
  shows "main s = authCodeGrant_select \<and> decided (main s')"
proof (cases l)
  case (tokenChannel i)
  from step_tokenChannel [OF assms(1) [unfolded \<open>l = _\<close>]] show ?thesis by auto
next
  case stdinChannel
  from step_stdinChannel [OF assms(1) [unfolded \<open>l = _\<close>]] show ?thesis by auto
next
  case errorChannel_listener
  from step_errorChannel_listener [OF assms(1) [unfolded \<open>l = _\<close>]] show ?thesis by auto
next
  case errorChannel_reader
  from step_errorChannel_reader [OF assms(1) [unfolded \<open>l = _\<close>]] show ?thesis by auto
qed (use assms(2) in simp_all)

lemma decided_step:
  assumes "step command w l s = Some s'" and "decided (main s)"
  shows "decided (main s') \<and> \<not> select_case l \<and> pending s s'"
proof (cases l)
  case Main
  with assms(1) have m: "main_step command w s = Some s'" by simp
  from main_step_enabled [OF m] assms(2) consider
    t where "main s = authCodeGrant_split t" | t v where "main s = Execute_save t v"
    by auto
  then show ?thesis
  proof cases
    case 1
    then show ?thesis using main_step_early [OF m] Main by (auto simp add: pending_def)
  next
    case 2
    from main_step_save [OF 2 m] show ?thesis using Main by (auto simp add: pending_def)
  qed
next
  case Listener
  from step_Listener [OF assms(1) [unfolded \<open>l = _\<close>]] have "main s' = main s \<and> reader s' = reader s \<and> handlers s' = handlers s"
    by auto
  then show ?thesis using assms(2) Listener by (simp add: pending_def)
next
  case (Handler i)
  from step_Handler [OF assms(1) [unfolded \<open>l = _\<close>]] obtain r q where "i < length (handlers s)" "handlers s ! i = handler_redirect q"
    "s' = s\<lparr>handlers := (handlers s)[i := handler_done r]\<rparr>"
    by blast
  then show ?thesis using assms(2) Handler
    by (auto simp add: pending_def nth_list_update)
next
  case Reader
  from step_Reader [OF assms(1) [unfolded \<open>l = _\<close>]] obtain more r where "reader s = reader_loop"
    "s' = s\<lparr>stdout := stdout s @ ''or enter token manually: '' # more,
             stdin := unread (Scanf (stdin s)), reader := r\<rparr>"
    by blast
  then show ?thesis using assms(2) Reader by (simp add: pending_def)
next
  case (Request p t)
  from step_Request [OF assms(1) [unfolded \<open>l = _\<close>]] have "s' = s\<lparr>handlers := handlers s @ [handler_token p t]\<rparr>"
    by blast
  then show ?thesis using assms(2) Request by (simp add: pending_def nth_append)
next
  case (ServeFails e)
  from step_ServeFails [OF assms(1) [unfolded \<open>l = _\<close>]] have "s' = s\<lparr>listener := listener_error e\<rparr>" by blast
  then show ?thesis using assms(2) ServeFails by (simp add: pending_def)
next
  case portChannel
  from step_portChannel [OF assms(1) [unfolded \<open>l = _\<close>]] assms(2) show ?thesis by auto
next
  case (tokenChannel i)
  with select_case_step [OF assms(1)] assms(2) show ?thesis by simp
next
  case stdinChannel
  with select_case_step [OF assms(1)] assms(2) show ?thesis by simp
next
  case errorChannel_listener
  with select_case_step [OF assms(1)] assms(2) show ?thesis by simp
next
  case errorChannel_reader
  with select_case_step [OF assms(1)] assms(2) show ?thesis by simp
qed

lemma pending_trans: "pending s s1 \<Longrightarrow> pending s1 s2 \<Longrightarrow> pending s s2"
  unfolding pending_def by blast

lemma decided_exec:
  assumes "decided (main s)" and "exec command w ls s = Some s'"
  shows "decided (main s') \<and> filter select_case ls = [] \<and> pending s s'"
  using assms
proof (induction ls arbitrary: s)
  case Nil
  then show ?case by (simp add: pending_def)
next
  case (Cons l ls)
  then obtain s1 where 1: "step command w l s = Some s1" and 2: "exec command w ls s1 = Some s'"
    by (auto split: option.splits)
  from decided_step [OF 1 Cons.prems(1)] have d: "decided (main s1)" "\<not> select_case l"
    "pending s s1" by simp_all
  from Cons.IH [OF d(1) 2] d show ?case by (auto intro: pending_trans)
qed

lemma select_once:
  assumes "exec command w ls s = Some s'"
  shows "length (filter select_case ls) \<le> 1"
  using assms
proof (induction ls arbitrary: s)
  case Nil
  then show ?case by simp
next
  case (Cons l ls)
  then obtain s1 where 1: "step command w l s = Some s1" and 2: "exec command w ls s1 = Some s'"
    by (auto split: option.splits)
  show ?case
  proof (cases "select_case l")
    case True
    with select_case_step [OF 1] have "decided (main s1)" by simp
    from decided_exec [OF this 2] True show ?thesis by simp
  next
    case False
    with Cons.IH [OF 2] show ?thesis by simp
  qed
qed

lemma main_step_save_exact:
  assumes "main s = Execute_save k v"
  shows "main_step command w s = Some (after_save command w k v s)"
  using assms
  by (cases "rc_SaveTarget w (saved_as command w k v)")
    (simp_all add: main_step_def saveTarget_def Let_def after_save_def saved_as_def)

lemma other_step:
  assumes "step command w l s = Some s'" and "l \<noteq> Main" and "\<not> select_case l"
    and "l \<noteq> portChannel"
  shows "main s' = main s \<and> saves s' = saves s"
proof (cases l)
  case Listener
  from step_Listener [OF assms(1) [unfolded \<open>l = _\<close>]] show ?thesis by auto
next
  case (Handler i)
  from step_Handler [OF assms(1) [unfolded \<open>l = _\<close>]] show ?thesis by auto
next
  case Reader
  from step_Reader [OF assms(1) [unfolded \<open>l = _\<close>]] show ?thesis by auto
next
  case (Request p t)
  from step_Request [OF assms(1) [unfolded \<open>l = _\<close>]] show ?thesis by auto
next
  case (ServeFails e)
  from step_ServeFails [OF assms(1) [unfolded \<open>l = _\<close>]] show ?thesis by auto
qed (use assms in simp_all)

lemma decided_other_step:
  assumes "step command w l s = Some s'" and "decided (main s)" and "l \<noteq> Main"
  shows "main s' = main s \<and> saves s' = saves s"
proof -
  have "\<not> select_case l"
  proof
    assume "select_case l"
    from select_case_step [OF assms(1) this] assms(2) show False by simp
  qed
  moreover have "l \<noteq> portChannel"
  proof
    assume "l = portChannel"
    from step_portChannel [OF assms(1) [unfolded this]] assms(2) show False by simp
  qed
  ultimately show ?thesis using other_step [OF assms(1,3)] by simp
qed

lemma acted_step:
  assumes "acted command w t s" and "step command w l s = Some s'"
  shows "acted command w t s'"
proof (cases "l = Main")
  case False
  have "decided (main s)"
    using assms(1) split_token_cases [of t] by (auto simp add: acted_def)
  from decided_other_step [OF assms(2) this False] assms(1) show ?thesis
    by (simp add: acted_def)
next
  case True
  then have m: "main_step command w s = Some s'" using assms(2) by simp
  from assms(1) consider "main s = authCodeGrant_split t" "saves s = []"
    | "main s = split_token t" "saves s = []"
    | r where "main s = Execute_return r"
    unfolding acted_def by blast
  then show ?thesis
  proof cases
    case 1
    then have "s' = s\<lparr>main := split_token t\<rparr>" using m by (simp add: main_step_def)
    then show ?thesis using 1 by (simp add: acted_def)
  next
    case 2
    from split_token_cases [of t] show ?thesis
    proof
      assume "\<exists>m. split_token t = panic m"
      then show ?thesis using 2 m by (auto simp add: main_step_def)
    next
      assume "\<exists>k v. split_token t = Execute_save k v"
      then obtain k v where kv: "split_token t = Execute_save k v" by blast
      then have "s' = after_save command w k v s"
        using main_step_save_exact [of s k v command w] 2 m by simp
      then show ?thesis using kv 2 by (simp add: acted_def after_save_def)
    qed
  next
    case 3
    then show ?thesis using m by (simp add: main_step_def)
  qed
qed

lemma returned_step:
  assumes "main s = Execute_return r" and "step command w l s = Some s'"
  shows "main s' = Execute_return r \<and> saves s' = saves s"
proof (cases "l = Main")
  case True
  then show ?thesis using assms by (simp add: main_step_def)
next
  case False
  from decided_other_step [OF assms(2) _ False] assms(1) show ?thesis by simp
qed

lemma returned_exec:
  assumes "main s = Execute_return r" and "exec command w ls s = Some s'"
  shows "main s' = Execute_return r \<and> saves s' = saves s"
  using assms
proof (induction ls arbitrary: s)
  case Nil
  then show ?case by simp
next
  case (Cons l ls)
  then obtain s1 where 1: "step command w l s = Some s1" and 2: "exec command w ls s1 = Some s'"
    by (auto split: option.splits)
  from returned_step [OF Cons.prems(1) 1] Cons.IH [of s1] 2 show ?case by simp
qed

lemma counted_step:
  assumes "Username command = [] \<or> Password command = []"
    and "counted ls s" and "step command w l s = Some s'"
  shows "counted (ls @ [l]) s'"
proof (cases "select_case l")
  case True
  from select_case_step [OF assms(3) True] have s: "main s = authCodeGrant_select"
    "decided (main s')" by simp_all
  have "main s' \<noteq> panic ''url.Parse''"
  proof (cases l)
    case (tokenChannel i)
    from step_tokenChannel [OF assms(3) [unfolded \<open>l = _\<close>]] show ?thesis by auto
  next
    case stdinChannel
    from step_stdinChannel [OF assms(3) [unfolded \<open>l = _\<close>]] show ?thesis by auto
  next
    case errorChannel_listener
    from step_errorChannel_listener [OF assms(3) [unfolded \<open>l = _\<close>]] show ?thesis by auto
  next
    case errorChannel_reader
    from step_errorChannel_reader [OF assms(3) [unfolded \<open>l = _\<close>]] show ?thesis by auto
  qed (use True in simp_all)
  then show ?thesis using s True assms(2) by (simp add: counted_def)
next
  case False
  show ?thesis
  proof (cases "l = Main")
    case True
    then have m: "main_step command w s = Some s'" using assms(3) by simp
    from main_step_enabled [OF m] consider "main s = Execute_grant"
      | p where "main s = authCodeGrant_url p" | t where "main s = authCodeGrant_split t"
      | k v where "main s = Execute_save k v"
      by blast
    then show ?thesis
    proof cases
      case 1
      then have "main s' = authCodeGrant_port" using m assms(1) by (auto simp add: main_step_def)
      then show ?thesis using 1 assms(2) True by (simp add: counted_def)
    next
      case 2
      then have "main s' = authCodeGrant_select \<or> main s' = panic ''url.Parse''"
        using m by (auto simp add: main_step_def split: sum.splits)
      then show ?thesis using 2 assms(2) True by (auto simp add: counted_def)
    next
      case 3
      then have "main s' = split_token t" using m by (auto simp add: main_step_def)
      moreover have "split_token t \<noteq> panic ''url.Parse''" "decided (split_token t)"
        by (simp_all add: split_token_def Let_def)
      ultimately show ?thesis using 3 assms(2) True by (simp add: counted_def)
    next
      case 4
      from main_step_save_exact [OF 4, of command w] m
      have "main s' = Execute_return (rc_SaveTarget w (saved_as command w k v))"
        by (auto simp add: after_save_def)
      then show ?thesis using 4 assms(2) True by (simp add: counted_def)
    qed
  next
    case notMain: False
    show ?thesis
    proof (cases "l = portChannel")
      case True
      from step_portChannel [OF assms(3) [unfolded True]] show ?thesis
        using assms(2) True by (auto simp add: counted_def)
    next
      case False
      from other_step [OF assms(3) notMain \<open>\<not> select_case l\<close> False] assms(2)
        \<open>\<not> select_case l\<close>
      show ?thesis by (simp add: counted_def)
    qed
  qed
qed

lemma counted_exec:
  assumes "Username command = [] \<or> Password command = []"
    and "exec command w ls (start inp) = Some s"
  shows "counted ls s"
  using assms(2)
proof (induction ls arbitrary: s rule: rev_induct)
  case Nil
  then show ?case by (auto simp add: counted_def start_def)
next
  case (snoc l ls)
  then obtain s1 where 1: "exec command w ls (start inp) = Some s1"
    and 2: "step command w l s1 = Some s"
    by (auto simp add: exec_append split: option.splits)
  from counted_step [OF assms(1) snoc.IH [OF 1] 2] show ?case .
qed


lemma acted_exec:
  assumes "acted command w t s" and "exec command w ls s = Some s'"
  shows "acted command w t s'"
  using exec_invariant [where I = "acted command w t" and command = command and w = w]
    acted_step assms by blast

text \<open>
  Claim C4. In a run, at most one communication is received by the \<^verbatim>\<open>select\<close> and
  \<^verbatim>\<open>rc.SaveTarget\<close> is called at most once. When both producers wait with a token string
  while the main goroutine waits in its \<^verbatim>\<open>select\<close>, either can be received, and the main
  goroutine then holds that one string. Once the main goroutine has its outcome, it has
  it in every later state, no case of the \<^verbatim>\<open>select\<close> receives again, and a producer that
  waits with a token string (the reader, or the handler of a request) still waits with
  it: the string of the loser is never taken. On the path without username and password
  the steps up to a state past the \<^verbatim>\<open>select\<close> hold exactly one such communication, and none
  before. An \<^verbatim>\<open>Execute\<close> that has returned keeps its result and what it saved. The string
  \<open>t\<close> that the \<^verbatim>\<open>select\<close> received is the one acted upon: nothing is saved when it is
  received, the two steps of the main goroutine that follow split it and call
  \<^verbatim>\<open>rc.SaveTarget\<close> with its token type and token value, whose result \<^verbatim>\<open>Execute\<close> returns,
  and in every later state what has been saved is nothing or that one pair.
\<close>

theorem race_has_one_outcome:
  assumes "exec command w ls1 (start inp) = Some s1" and "exec command w ls2 s1 = Some s2"
  shows "length (filter select_case (ls1 @ ls2)) \<le> 1 \<and> length (saves s2) \<le> 1 \<and>
    (main s1 = authCodeGrant_select \<and> reader s1 = reader_token a \<and>
       i < length (handlers s1) \<and> handlers s1 ! i = handler_token p b \<longrightarrow>
       step command w stdinChannel s1 =
         Some (s1\<lparr>main := authCodeGrant_split a, reader := reader_exit\<rparr>) \<and>
       step command w (tokenChannel i) s1 =
         Some (s1\<lparr>main := authCodeGrant_split b,
                 handlers := (handlers s1)[i := handler_redirect p]\<rparr>)) \<and>
    (decided (main s1) \<longrightarrow>
       decided (main s2) \<and> filter select_case ls2 = [] \<and>
       (\<forall>t. reader s1 = reader_token t \<longrightarrow> reader s2 = reader_token t) \<and>
       (\<forall>j q t. j < length (handlers s1) \<and> handlers s1 ! j = handler_token q t \<longrightarrow>
          j < length (handlers s2) \<and> handlers s2 ! j = handler_token q t)) \<and>
    (Username command = [] \<or> Password command = [] \<longrightarrow>
       (if decided (main s1) \<and> main s1 \<noteq> panic ''url.Parse''
        then length (filter select_case ls1) = 1 else filter select_case ls1 = [])) \<and>
    (\<forall>r. main s1 = Execute_return r \<longrightarrow> main s2 = Execute_return r \<and> saves s2 = saves s1) \<and>
    (\<forall>t. main s1 = authCodeGrant_split t \<longrightarrow>
       saves s1 = [] \<and>
       (main s2 = authCodeGrant_split t \<and> saves s2 = [] \<or>
        main s2 = split_token t \<and> saves s2 = [] \<or>
        (\<exists>k v. split_token t = Execute_save k v \<and>
           main s2 = Execute_return (rc_SaveTarget w (saved_as command w k v)) \<and>
           saves s2 = [saved_as command w k v])) \<and>
       (\<forall>k v. split_token t = Execute_save k v \<longrightarrow>
          exec command w [Main, Main] s1 =
            Some (s1\<lparr>main := Execute_return (rc_SaveTarget w (saved_as command w k v)),
                    saves := [saved_as command w k v],
                    stdout := stdout s1 @ Println [] #
                      (case rc_SaveTarget w (saved_as command w k v) of
                         None \<Rightarrow> [Println ''target saved''] | Some e \<Rightarrow> [])\<rparr>)))"
proof -
  have e: "exec command w (ls1 @ ls2) (start inp) = Some s2"
    using assms by (simp add: exec_append)
  have so: "saved_once (start inp)" by (simp add: saved_once_def start_def)
  with e have "saved_once s2"
    using exec_invariant [where I = saved_once and command = command and w = w]
      saved_once_step by blast
  then have 1: "length (saves s2) \<le> 1" by (simp add: saved_once_def)
  from so assms(1) have so1: "saved_once s1"
    using exec_invariant [where I = saved_once and command = command and w = w]
      saved_once_step by blast
  from select_once [OF e] have 2: "length (filter select_case (ls1 @ ls2)) \<le> 1" .
  have 3: "decided (main s2) \<and> filter select_case ls2 = [] \<and> pending s1 s2" if "decided (main s1)"
    using decided_exec [OF that assms(2)] .
  have 4: "step command w stdinChannel s1 =
         Some (s1\<lparr>main := authCodeGrant_split a, reader := reader_exit\<rparr>) \<and>
       step command w (tokenChannel i) s1 =
         Some (s1\<lparr>main := authCodeGrant_split b,
                 handlers := (handlers s1)[i := handler_redirect p]\<rparr>)"
    if "main s1 = authCodeGrant_select" "reader s1 = reader_token a"
      "i < length (handlers s1)" "handlers s1 ! i = handler_token p b"
    using that by simp
  have 5: "if decided (main s1) \<and> main s1 \<noteq> panic ''url.Parse''
        then length (filter select_case ls1) = 1 else filter select_case ls1 = []"
    if "Username command = [] \<or> Password command = []"
    using counted_exec [OF that assms(1)] by (simp add: counted_def)
  have 6: "main s2 = Execute_return r \<and> saves s2 = saves s1" if "main s1 = Execute_return r" for r
    using returned_exec [OF that assms(2)] .
  have 7: "saves s1 = [] \<and>
       (main s2 = authCodeGrant_split t \<and> saves s2 = [] \<or>
        main s2 = split_token t \<and> saves s2 = [] \<or>
        (\<exists>k v. split_token t = Execute_save k v \<and>
           main s2 = Execute_return (rc_SaveTarget w (saved_as command w k v)) \<and>
           saves s2 = [saved_as command w k v])) \<and>
       (\<forall>k v. split_token t = Execute_save k v \<longrightarrow>
          exec command w [Main, Main] s1 =
            Some (s1\<lparr>main := Execute_return (rc_SaveTarget w (saved_as command w k v)),
                    saves := [saved_as command w k v],
                    stdout := stdout s1 @ Println [] #
                      (case rc_SaveTarget w (saved_as command w k v) of
                         None \<Rightarrow> [Println ''target saved''] | Some e \<Rightarrow> [])\<rparr>))"
    if t: "main s1 = authCodeGrant_split t" for t
  proof -
    have n: "saves s1 = []" using so1 t by (auto simp add: saved_once_def)
    then have "acted command w t s1" using t by (simp add: acted_def)
    from acted_exec [OF this assms(2)] have a: "acted command w t s2" .
    have "exec command w [Main, Main] s1 =
            Some (s1\<lparr>main := Execute_return (rc_SaveTarget w (saved_as command w k v)),
                    saves := [saved_as command w k v],
                    stdout := stdout s1 @ Println [] #
                      (case rc_SaveTarget w (saved_as command w k v) of
                         None \<Rightarrow> [Println ''target saved''] | Some e \<Rightarrow> [])\<rparr>)"
      if kv: "split_token t = Execute_save k v" for k v
    proof -
      have "main_step command w s1 = Some (s1\<lparr>main := Execute_save k v\<rparr>)"
        using t kv by (simp add: main_step_def)
      moreover have "main_step command w (s1\<lparr>main := Execute_save k v\<rparr>) =
          Some (after_save command w k v (s1\<lparr>main := Execute_save k v\<rparr>))"
        by (rule main_step_save_exact) simp
      ultimately show ?thesis using n by (simp add: after_save_def)
    qed
    with n a show ?thesis unfolding acted_def by blast
  qed
  from 1 2 3 4 5 6 7 show ?thesis unfolding pending_def by blast
qed

lemma example_ready_reachable:
  "exec example_command example_world
     [Main, Listener, portChannel, Main, Request ''/auth/callback'' ''Bearer abc123'', Reader]
     (start (''bearer mytoken123'' @ [LF])) = Some example_ready"
  by (simp add: start_def example_command_def example_world_def example_ready_def
      main_step_def listener_step_def reader_step_def Scanf_def scan_token_def advance_def
      isSpace_def space_def LF_def CR_def)

lemma example_saved_reachable:
  "exec example_command example_world [tokenChannel 0, Handler 0, Main, Main] example_ready =
   Some example_saved"
  by (simp add: example_ready_def example_both_def example_saved_def example_command_def
      example_world_def main_step_def handler_step_def saveTarget_def split_token_def
      SplitN_two StatusTemporaryRedirect_def)

lemma example_both_reachable:
  "exec example_command example_world
     [Main, Listener, portChannel, Main, Request ''/auth/callback'' ''Bearer abc123'', Reader, tokenChannel 0]
     (start (''bearer mytoken123'' @ [LF])) = Some example_both"
  using example_ready_reachable
    exec_append [of example_command example_world
      "[Main, Listener, portChannel, Main, Request ''/auth/callback'' ''Bearer abc123'', Reader]" "[tokenChannel 0]"
      "start (''bearer mytoken123'' @ [LF])"]
  by (simp add: example_ready_def example_both_def)

lemma example_saved_after_both:
  "exec example_command example_world [Handler 0, Main, Main] example_both = Some example_saved"
  using example_saved_reachable by (simp add: example_ready_def example_both_def)

theorem race_has_one_outcome_witness:
  "length (filter select_case
     ([Main, Listener, portChannel, Main, Request ''/auth/callback'' ''Bearer abc123'', Reader] @
      [tokenChannel 0, Handler 0, Main, Main])) \<le> 1 \<and>
   length (saves example_saved) \<le> 1 \<and>
   step example_command example_world stdinChannel example_ready =
     Some (example_ready\<lparr>main := authCodeGrant_split ''bearer mytoken123'',
        reader := reader_exit\<rparr>) \<and>
   step example_command example_world (tokenChannel 0) example_ready = Some example_both \<and>
   decided (main example_both) \<and> decided (main example_saved) \<and>
   filter select_case [Handler 0, Main, Main] = [] \<and>
   length (filter select_case
     [Main, Listener, portChannel, Main, Request ''/auth/callback'' ''Bearer abc123'', Reader,
      tokenChannel 0]) = 1 \<and>
   reader example_both = reader_token ''bearer mytoken123'' \<and>
   reader example_saved = reader_token ''bearer mytoken123'' \<and>
   main example_saved = Execute_return None \<and>
   saves example_saved = [saved_as example_command example_world ''Bearer'' ''abc123''] \<and>
   map_option saves (exec example_command example_world [Main, Main] example_both) =
     Some [saved_as example_command example_world ''Bearer'' ''abc123'']"
  using race_has_one_outcome [where command = example_command and w = example_world
      and ?ls1.0 = "[Main, Listener, portChannel, Main,
        Request ''/auth/callback'' ''Bearer abc123'', Reader]"
      and inp = "''bearer mytoken123'' @ [LF]" and ?s1.0 = example_ready
      and ?ls2.0 = "[tokenChannel 0, Handler 0, Main, Main]" and ?s2.0 = example_saved
      and a = "''bearer mytoken123''" and i = 0 and p = "''/auth/callback''"
      and b = "''Bearer abc123''"]
    race_has_one_outcome [where command = example_command and w = example_world
      and ?ls1.0 = "[Main, Listener, portChannel, Main,
        Request ''/auth/callback'' ''Bearer abc123'', Reader, tokenChannel 0]"
      and inp = "''bearer mytoken123'' @ [LF]" and ?s1.0 = example_both
      and ?ls2.0 = "[Handler 0, Main, Main]" and ?s2.0 = example_saved
      and a = "[]" and i = 0 and p = "[]" and b = "[]"]
    example_ready_reachable example_saved_reachable example_both_reachable
    example_saved_after_both
  by (simp add: example_ready_def example_both_def example_saved_def saved_as_def
      example_command_def example_world_def main_step_def saveTarget_def split_token_def
      SplitN_two)

end
